theory Spec2Isabelle
  imports Complex_Main "HOL-Library.Log_Nat"
begin

section \<open>JavaScript values\<close>

text \<open>
  The module \<^verbatim>\<open>src/queries.ts\<close> works on untyped (\<^verbatim>\<open>any\<close>) query results, so
  the model carries JavaScript's primitive values explicitly. A number is an IEEE 754
  binary64 value: a finite one is represented by the rational it denotes, and there are
  the two infinities and \<^verbatim>\<open>NaN\<close>. The result of an arithmetic operation is rounded to
  the nearest binary64 value, ties to even, and overflows to an infinity
  (\<open>to_binary64\<close>). The two zeros are not told apart.
\<close>

datatype jsnum = Fin rat | PosInfinity | NegInfinity | NaN

datatype jsval = JUndefined | JNull | JBool bool | JNum jsnum | JStr string

text \<open>
  A thrown exception or a rejected promise is a value: \<open>TypeError\<close> for a property
  read on \<^verbatim>\<open>undefined\<close> or \<^verbatim>\<open>null\<close>, \<open>Rejected\<close> for a failure of the
  query service.
\<close>

datatype error = TypeError | Rejected string

subsection \<open>Rounding to binary64\<close>

text \<open>\<open>rne\<close> rounds a rational to the nearest integer, ties to the even one.\<close>

definition rne :: "rat \<Rightarrow> int" where
  "rne q = (let f = \<lfloor>q\<rfloor>; d = q - of_int f in
      if d < 1/2 then f else if 1/2 < d then f + 1 else if even f then f else f + 1)"

text \<open>\<open>expo x\<close> is the binary exponent of a positive \<open>x\<close>: \<open>2 powi expo x \<le> x < 2 powi (expo x + 1)\<close>.\<close>

definition expo :: "rat \<Rightarrow> int" where
  "expo x = (if 1 \<le> x then bitlen \<lfloor>x\<rfloor> - 1 else - bitlen (\<lceil>1 / x\<rceil> - 1))"

text \<open>
  The unit in the last place of \<open>x\<close> has exponent \<open>ulp_exp x - 52\<close> (53 significant
  bits); below the normal range (\<open>expo x < - 1022\<close>) the spacing is that of the
  subnormal numbers.
\<close>

definition ulp_exp :: "rat \<Rightarrow> int" where
  "ulp_exp x = max (expo \<bar>x\<bar>) (- 1022)"

text \<open>
  \<open>round64\<close> rounds to 53 significant bits as if the exponent had no upper bound;
  \<open>to_binary64\<close> is the rounding of the arithmetic: a result that rounds to
  \<open>2 ^ 1024\<close> or beyond in magnitude, that is, beyond the largest finite number, is an
  infinity.
\<close>

definition round64 :: "rat \<Rightarrow> rat" where
  "round64 x = (if x = 0 then 0 else
     let u = 2 powi (ulp_exp x - 52) in of_int (rne (x / u)) * u)"

definition to_binary64 :: "rat \<Rightarrow> jsnum" where
  "to_binary64 x =
     (let y = round64 x in
      if 2 ^ 1024 \<le> y then PosInfinity
      else if y \<le> - (2 ^ 1024) then NegInfinity
      else Fin y)"

subsection \<open>Arithmetic on numbers\<close>

text \<open>The sign of a number, and the infinity of a sign; a zero sign gives \<^verbatim>\<open>NaN\<close>.\<close>

fun signum :: "jsnum \<Rightarrow> int" where
  "signum (Fin a) = (if a < 0 then - 1 else if a = 0 then 0 else 1)"
| "signum PosInfinity = 1"
| "signum NegInfinity = - 1"
| "signum NaN = 0"

definition infinity_of :: "int \<Rightarrow> jsnum" where
  "infinity_of s = (if s = 0 then NaN else if 0 < s then PosInfinity else NegInfinity)"

fun num_neg :: "jsnum \<Rightarrow> jsnum" where
  "num_neg (Fin a) = Fin (- a)"
| "num_neg PosInfinity = NegInfinity"
| "num_neg NegInfinity = PosInfinity"
| "num_neg NaN = NaN"

fun num_add :: "jsnum \<Rightarrow> jsnum \<Rightarrow> jsnum" where
  "num_add (Fin a) (Fin b) = to_binary64 (a + b)"
| "num_add NaN _ = NaN"
| "num_add _ NaN = NaN"
| "num_add PosInfinity NegInfinity = NaN"
| "num_add NegInfinity PosInfinity = NaN"
| "num_add PosInfinity _ = PosInfinity"
| "num_add _ PosInfinity = PosInfinity"
| "num_add NegInfinity _ = NegInfinity"
| "num_add _ NegInfinity = NegInfinity"

fun num_sub :: "jsnum \<Rightarrow> jsnum \<Rightarrow> jsnum" where
  "num_sub (Fin a) (Fin b) = to_binary64 (a - b)"
| "num_sub x y = num_add x (num_neg y)"

text \<open>An infinity times zero is \<^verbatim>\<open>NaN\<close>.\<close>

fun num_mul :: "jsnum \<Rightarrow> jsnum \<Rightarrow> jsnum" where
  "num_mul (Fin a) (Fin b) = to_binary64 (a * b)"
| "num_mul NaN _ = NaN"
| "num_mul _ NaN = NaN"
| "num_mul x y = infinity_of (signum x * signum y)"

text \<open>
  A zero divisor counts as the positive zero. The only divisor in the module is the
  constant 20.
\<close>

fun num_div :: "jsnum \<Rightarrow> jsnum \<Rightarrow> jsnum" where
  "num_div (Fin a) (Fin b) = (if b = 0 then infinity_of (signum (Fin a)) else to_binary64 (a / b))"
| "num_div NaN _ = NaN"
| "num_div _ NaN = NaN"
| "num_div (Fin a) _ = Fin 0"
| "num_div x (Fin b) = infinity_of (signum x * (if b < 0 then - 1 else 1))"
| "num_div _ _ = NaN"

text \<open>\<^verbatim>\<open>Math.abs\<close> on a number.\<close>

fun num_abs :: "jsnum \<Rightarrow> jsnum" where
  "num_abs (Fin a) = Fin \<bar>a\<bar>"
| "num_abs PosInfinity = PosInfinity"
| "num_abs NegInfinity = PosInfinity"
| "num_abs NaN = NaN"

text \<open>Truthiness, as tested by \<^verbatim>\<open>if\<close>, \<^verbatim>\<open>&&\<close>, \<^verbatim>\<open>||\<close> and \<^verbatim>\<open>!\<close>.\<close>

fun truthy :: "jsval \<Rightarrow> bool" where
  "truthy JUndefined = False"
| "truthy JNull = False"
| "truthy (JBool b) = b"
| "truthy (JNum (Fin r)) = (r \<noteq> 0)"
| "truthy (JNum NaN) = False"
| "truthy (JNum x) = True"
| "truthy (JStr s) = (s \<noteq> [])"

section \<open>The data model of the module\<close>

text \<open>
  The Looker descriptors, with the attributes the module reads. \<open>measures\<close> is
  \<^verbatim>\<open>explore.fields.measures\<close>; \<open>ftype\<close> is the field's \<^verbatim>\<open>type\<close>. An optional
  attribute that is \<^verbatim>\<open>undefined\<close> is \<open>None\<close>.
\<close>

record ILookmlModelExploreField =
  name :: string
  category :: "string option"
  ftype :: "string option"
  view_label :: "string option"
  label_short :: "string option"

record ILookmlModelExplore =
  explore_name :: string
  measures :: "ILookmlModelExploreField list"

record ILookmlModel =
  model_name :: string

datatype chart_type = Values | Distribution

text \<open>
  \<^verbatim>\<open>FieldInfo\<close> and its extension \<^verbatim>\<open>QueryChartType\<close>, whose \<^verbatim>\<open>type\<close> is
  \<open>type'\<close>. The functions of the module take one object and destructure it; here
  they take the record, of any extension of \<open>FieldInfo\<close>.
\<close>

record FieldInfo =
  model :: ILookmlModel
  explore :: ILookmlModelExplore
  field :: ILookmlModelExploreField

record QueryChartType = FieldInfo +
  type' :: chart_type

text \<open>
  The functions of the JavaScript runtime that the module calls and that depend on
  the engine or its locale are parameters of the model:
  \<^verbatim>\<open>Number.prototype.toString\<close> and \<^verbatim>\<open>Number.prototype.toLocaleString\<close> on finite
  numbers, the locale's text of an infinity (of the negative one when the argument is
  true), the conversion of a string to a number, and \<^verbatim>\<open>JSON.stringify\<close> of a request.
\<close>

record host =
  numToString :: "rat \<Rightarrow> string"
  numToLocaleString :: "rat \<Rightarrow> string"
  infinityToLocaleString :: "bool \<Rightarrow> string"
  stringToNumber :: "string \<Rightarrow> jsnum"
  stringify :: "QueryChartType \<Rightarrow> string"

fun ToNumber :: "host \<Rightarrow> jsval \<Rightarrow> jsnum" where
  "ToNumber h JUndefined = NaN"
| "ToNumber h JNull = Fin 0"
| "ToNumber h (JBool b) = Fin (if b then 1 else 0)"
| "ToNumber h (JNum x) = x"
| "ToNumber h (JStr s) = stringToNumber h s"

fun numberToString :: "host \<Rightarrow> jsnum \<Rightarrow> string" where
  "numberToString h (Fin r) = numToString h r"
| "numberToString h PosInfinity = ''Infinity''"
| "numberToString h NegInfinity = ''-Infinity''"
| "numberToString h NaN = ''NaN''"

text \<open>The coercion of a template literal \<^verbatim>\<open>`${x}`\<close>.\<close>

fun ToString :: "host \<Rightarrow> jsval \<Rightarrow> string" where
  "ToString h JUndefined = ''undefined''"
| "ToString h JNull = ''null''"
| "ToString h (JBool b) = (if b then ''true'' else ''false'')"
| "ToString h (JNum x) = numberToString h x"
| "ToString h (JStr s) = s"

text \<open>The method call \<^verbatim>\<open>x.toLocaleString()\<close>; it throws on \<^verbatim>\<open>undefined\<close> and \<^verbatim>\<open>null\<close>.\<close>

fun toLocaleString :: "host \<Rightarrow> jsval \<Rightarrow> error + string" where
  "toLocaleString h JUndefined = Inl TypeError"
| "toLocaleString h JNull = Inl TypeError"
| "toLocaleString h (JBool b) = Inr (if b then ''true'' else ''false'')"
| "toLocaleString h (JNum (Fin r)) = Inr (numToLocaleString h r)"
| "toLocaleString h (JNum PosInfinity) = Inr (infinityToLocaleString h False)"
| "toLocaleString h (JNum NegInfinity) = Inr (infinityToLocaleString h True)"
| "toLocaleString h (JNum NaN) = Inr ''NaN''"
| "toLocaleString h (JStr s) = Inr s"

text \<open>\<^verbatim>\<open>a - b\<close> on two values, and \<^verbatim>\<open>a + x\<close> for a value and a number (a string on the left concatenates).\<close>

definition js_minus :: "host \<Rightarrow> jsval \<Rightarrow> jsval \<Rightarrow> jsnum" where
  "js_minus h a b = num_sub (ToNumber h a) (ToNumber h b)"

fun js_plus :: "host \<Rightarrow> jsval \<Rightarrow> jsnum \<Rightarrow> jsval" where
  "js_plus h (JStr s) x = JStr (s @ numberToString h x)"
| "js_plus h a x = JNum (num_add (ToNumber h a) x)"

text \<open>The loose equality \<^verbatim>\<open>a == i\<close> of a value and an array index.\<close>

fun loose_eq_index :: "host \<Rightarrow> jsval \<Rightarrow> nat \<Rightarrow> bool" where
  "loose_eq_index h JUndefined i = False"
| "loose_eq_index h JNull i = False"
| "loose_eq_index h a i = (ToNumber h a = Fin (of_nat i))"

text \<open>
  A result cell of the query service (\<^verbatim>\<open>json_detail\<close> format): \<open>value'\<close> is its
  \<^verbatim>\<open>value\<close>. A row maps field names to cells; a response has its rows and, when
  totals were asked for, the totals row.
\<close>

record link =
  url :: "string option"

record cell =
  value' :: jsval
  rendered :: "string option"
  links :: "link list option"

type_synonym row = "(string \<times> cell) list"

record response =
  qr_data :: "row list"
  totals_data :: "row option"

text \<open>
  The argument of \<^verbatim>\<open>sdk.run_inline_query\<close>; the fields of \<^verbatim>\<open>body\<close> carry the prefix
  \<open>body_\<close>. \<^verbatim>\<open>dynamic_fields\<close> is kept as the list that the source passes to
  \<^verbatim>\<open>JSON.stringify\<close>.
\<close>

datatype dynamic_field =
  Measure (measure: string) (measure_type: string) (based_on: string)
| Dimension (dimension: string) (expression: string)

record query =
  result_format :: string
  limit :: nat
  body_total :: "bool option"
  body_model :: string
  body_view :: string
  body_fields :: "string list"
  body_sorts :: "string list option"
  body_dynamic_fields :: "dynamic_field list option"

text \<open>
  \<^verbatim>\<open>SimpleDatum\<close>, \<^verbatim>\<open>Histogram\<close> and \<^verbatim>\<open>SimpleResult\<close>. The source declares \<^verbatim>\<open>v\<close> a
  string, but \<^verbatim>\<open>getDistribution\<close> stores a falsy raw value there, so \<open>v\<close> is a value.
  A histogram entry \<^verbatim>\<open>{value, min, max}\<close> is a \<open>bin\<close>; \<open>max'\<close> is the result's
  \<^verbatim>\<open>max\<close>.
\<close>

record SimpleDatum =
  v :: jsval
  l :: "string option"
  n :: "jsnum option"

record bin =
  bin_value :: jsval
  bin_min :: jsval
  bin_max :: jsval

record Histogram =
  hist_data :: "bin list"

datatype alignment = AlignLeft | AlignRight

record SimpleResult =
  align :: "alignment list"
  data :: "SimpleDatum list list"
  max' :: "jsnum option list"
  aux :: "string option"
  histogram :: "Histogram option"

section \<open>The query service\<close>

text \<open>
  \<^verbatim>\<open>sdk.ok(sdk.run_inline_query(q))\<close> resolves to a response or rejects. The service
  is a parameter: \<open>sdk k q\<close> is its answer to the query \<open>q\<close> when \<open>k\<close> queries were
  issued before it. The list of the queries issued so far is threaded through every
  function that queries.
\<close>

type_synonym sdk = "nat \<Rightarrow> query \<Rightarrow> error + response"

definition run_inline_query :: "sdk \<Rightarrow> query \<Rightarrow> query list \<Rightarrow> (error + response) \<times> query list" where
  "run_inline_query sdk q issued = (sdk (length issued) q, issued @ [q])"

section \<open>Result formatter and field classifier\<close>

text \<open>
  \<^verbatim>\<open>formatData(d)\<close>. The argument is \<^verbatim>\<open>row[name]\<close>, which is \<^verbatim>\<open>undefined\<close> (\<open>None\<close>)
  when the row has no such cell; \<^verbatim>\<open>d.links\<close> then throws.
\<close>

definition formatData :: "host \<Rightarrow> cell option \<Rightarrow> error + SimpleDatum" where
  "formatData h d' = (case d' of
      None \<Rightarrow> Inl TypeError
    | Some d \<Rightarrow>
        let link = (case links d of
                      None \<Rightarrow> None
                    | Some [] \<Rightarrow> None
                    | Some (k # _) \<Rightarrow> url k);
            string = (case rendered d of
                      None \<Rightarrow> ToString h (value' d)
                    | Some r \<Rightarrow> if r \<noteq> [] then r else ToString h (value' d));
            number = (case value' d of JNum x \<Rightarrow> Some x | _ \<Rightarrow> None)
        in Inr \<lparr>v = JStr string, l = link, n = number\<rparr>)"

definition countFieldForField :: "'a FieldInfo_scheme \<Rightarrow> ILookmlModelExploreField option" where
  "countFieldForField info =
     (case filter (\<lambda>f. label_short f = Some ''Count'' \<and> view_label f = view_label (field info))
             (measures (explore info)) of
        [] \<Rightarrow> None
      | f # _ \<Rightarrow> Some f)"

definition canGetTopValues :: "'a FieldInfo_scheme \<Rightarrow> bool" where
  "canGetTopValues info =
     (category (field info) = Some ''dimension'' \<and> countFieldForField info \<noteq> None)"

definition canGetDistribution :: "'a FieldInfo_scheme \<Rightarrow> bool" where
  "canGetDistribution info =
     (ftype (field info) = Some ''number'' \<and> category (field info) = Some ''dimension'')"

section \<open>Top-values summarizer\<close>

text \<open>Errors propagate through a \<^verbatim>\<open>map\<close>: the first callback that throws ends it.\<close>

fun collect :: "(error + 'a) list \<Rightarrow> error + 'a list" where
  "collect [] = Inr []"
| "collect (x # xs) =
     (case x of
        Inl e \<Rightarrow> Inl e
      | Inr a \<Rightarrow> (case collect xs of Inl e \<Rightarrow> Inl e | Inr as \<Rightarrow> Inr (a # as)))"

text \<open>The argument of the query of \<^verbatim>\<open>getTopValues\<close> (lines 121-131).\<close>

definition topValuesQuery :: "'a FieldInfo_scheme \<Rightarrow> ILookmlModelExploreField \<Rightarrow> query" where
  "topValuesQuery info countField =
     \<lparr>result_format = ''json_detail'',
      limit = 10,
      body_total = Some True,
      body_model = model_name (model info),
      body_view = explore_name (explore info),
      body_fields = [name (field info), name countField],
      body_sorts = Some [name countField @ '' desc''],
      body_dynamic_fields = None\<rparr>"

text \<open>The callback of \<^verbatim>\<open>qr.data.map\<close> (lines 133-136).\<close>

definition formatRow :: "host \<Rightarrow> string \<Rightarrow> string \<Rightarrow> row \<Rightarrow> error + SimpleDatum list" where
  "formatRow h fieldName countName r =
     (case formatData h (map_of r fieldName) of
        Inl e \<Rightarrow> Inl e
      | Inr a \<Rightarrow>
          (case formatData h (map_of r countName) of
             Inl e \<Rightarrow> Inl e
           | Inr b \<Rightarrow> Inr [a, b]))"

text \<open>The unary plus of \<^verbatim>\<open>+data[0][1].n\<close>: \<^verbatim>\<open>undefined\<close> becomes \<^verbatim>\<open>NaN\<close>.\<close>

fun unary_plus :: "jsnum option \<Rightarrow> jsnum" where
  "unary_plus None = NaN"
| "unary_plus (Some x) = x"

text \<open>
  Lines 133-142: the rows are formatted, then the result object is built. \<^verbatim>\<open>data[0]\<close> is
  \<^verbatim>\<open>undefined\<close> when no row was returned, and \<^verbatim>\<open>data[0][1]\<close> then throws.
\<close>

definition topValuesResult :: "host \<Rightarrow> 'a FieldInfo_scheme \<Rightarrow> ILookmlModelExploreField \<Rightarrow> response \<Rightarrow> error + SimpleResult" where
  "topValuesResult h info countField qr =
     (case collect (map (formatRow h (name (field info)) (name countField)) (qr_data qr)) of
        Inl e \<Rightarrow> Inl e
      | Inr rows \<Rightarrow>
          (case rows of
             [] \<Rightarrow> Inl TypeError
           | r0 # _ \<Rightarrow>
               (case r0 of
                  [a, b] \<Rightarrow>
                    (case totals_data qr of
                       None \<Rightarrow> Inl TypeError
                     | Some t \<Rightarrow>
                         (case map_of t (name countField) of
                            None \<Rightarrow> Inl TypeError
                          | Some c \<Rightarrow>
                              (case toLocaleString h (value' c) of
                                 Inl e \<Rightarrow> Inl e
                               | Inr s \<Rightarrow>
                                   Inr \<lparr>align = [AlignLeft, AlignRight],
                                        data = rows,
                                        max' = [None, Some (unary_plus (n b))],
                                        aux = Some (s @ '' rows''),
                                        histogram = None\<rparr>)))
                | _ \<Rightarrow> Inl TypeError)))"

text \<open>
  \<^verbatim>\<open>getTopValues\<close>. \<^verbatim>\<open>countField.name\<close> is read while the argument of the query is
  built, so a missing count field throws before the query is issued.
\<close>

definition getTopValues :: "host \<Rightarrow> sdk \<Rightarrow> 'a FieldInfo_scheme \<Rightarrow> query list \<Rightarrow> (error + SimpleResult) \<times> query list" where
  "getTopValues h sdk info issued =
     (case countFieldForField info of
        None \<Rightarrow> (Inl TypeError, issued)
      | Some countField \<Rightarrow>
          (case run_inline_query sdk (topValuesQuery info countField) issued of
             (Inl e, issued1) \<Rightarrow> (Inl e, issued1)
           | (Inr qr, issued1) \<Rightarrow> (topValuesResult h info countField qr, issued1)))"

section \<open>Distribution summarizer\<close>

text \<open>The argument of the first query (lines 156-181).\<close>

definition statsQuery :: "'a FieldInfo_scheme \<Rightarrow> query" where
  "statsQuery info =
     \<lparr>result_format = ''json_detail'',
      limit = 10,
      body_total = None,
      body_model = model_name (model info),
      body_view = explore_name (explore info),
      body_fields = [''min'', ''max'', ''average''],
      body_sorts = None,
      body_dynamic_fields = Some
        [Measure ''min'' ''min'' (name (field info)),
         Measure ''max'' ''max'' (name (field info)),
         Measure ''average'' ''average'' (name (field info))]\<rparr>"

definition binCount :: nat where
  "binCount = 20"

text \<open>
  Lines 187-193: the bin bounds, from \<^verbatim>\<open>min.value\<close> and \<^verbatim>\<open>max.value\<close>. The loop
  counter and \<^verbatim>\<open>i + 1\<close> are small integers, exact as numbers.
\<close>

definition distributionBins :: "host \<Rightarrow> jsval \<Rightarrow> jsval \<Rightarrow> (jsval \<times> jsval) list" where
  "distributionBins h minValue maxValue =
     (let range = num_abs (js_minus h maxValue minValue);
          binSize = num_div range (Fin (of_nat binCount))
      in map (\<lambda>i. (js_plus h minValue (num_mul binSize (Fin (of_nat i))),
                    js_plus h minValue (num_mul binSize (Fin (of_nat (i + 1))))))
           [0..<binCount])"

text \<open>
  The bounds as the specification words them, for numeric \<^verbatim>\<open>min.value\<close> \<open>a\<close> and
  \<^verbatim>\<open>max.value\<close> \<open>b\<close>: the bin size is \<open>|b - a| / 20\<close> and bound \<open>i\<close> is
  \<open>a + i * binSize\<close>, each operation rounded as binary64 arithmetic rounds it.
\<close>

definition binSize64 :: "rat \<Rightarrow> rat \<Rightarrow> rat" where
  "binSize64 a b = round64 (\<bar>round64 (b - a)\<bar> / 20)"

definition bin_bound :: "rat \<Rightarrow> rat \<Rightarrow> nat \<Rightarrow> rat" where
  "bin_bound a b i = round64 (a + round64 (binSize64 a b * of_nat i))"

text \<open>
  Bound \<open>i\<close> as lines 187-193 compute it for numeric \<^verbatim>\<open>min.value\<close> \<open>a\<close> and
  \<^verbatim>\<open>max.value\<close> \<open>b\<close>, overflow included: it is the number \<open>bin_bound a b i\<close> when no
  operation overflows.
\<close>

definition bound_of :: "rat \<Rightarrow> rat \<Rightarrow> nat \<Rightarrow> jsnum" where
  "bound_of a b i = num_add (Fin a)
     (num_mul (num_div (num_abs (num_sub (Fin b) (Fin a))) (Fin 20)) (Fin (of_nat i)))"

text \<open>\<^verbatim>\<open>Array.prototype.join\<close> on strings.\<close>

fun join :: "string \<Rightarrow> string list \<Rightarrow> string" where
  "join sep [] = []"
| "join sep [x] = x"
| "join sep (x # y # ys) = x @ sep @ join sep (y # ys)"

text \<open>Lines 197-201: the expression of the derived \<^verbatim>\<open>bin\<close> dimension.\<close>

definition binExpression :: "host \<Rightarrow> string \<Rightarrow> (jsval \<times> jsval) list \<Rightarrow> string" where
  "binExpression h fieldName bins =
     (let ref = ''${'' @ fieldName @ ''}'';
          binClauses = join ('','' @ [CHR 0x0A])
            (map (\<lambda>(i, (lo, hi)).
                    ''if('' @ ref @ '' <= '' @ ToString h hi @ '', ''
                      @ numberToString h (Fin (of_nat i)) @ '', null)'')
               (enumerate 0 bins))
      in ''coalesce('' @ binClauses @ '')'')"

text \<open>The argument of the second query (lines 204-215).\<close>

definition histogramQuery :: "'a FieldInfo_scheme \<Rightarrow> ILookmlModelExploreField \<Rightarrow> string \<Rightarrow> query" where
  "histogramQuery info countField binExpr =
     \<lparr>result_format = ''json_detail'',
      limit = 10,
      body_total = None,
      body_model = model_name (model info),
      body_view = explore_name (explore info),
      body_fields = [''bin'', name countField],
      body_sorts = None,
      body_dynamic_fields = Some [Dimension ''bin'' binExpr]\<rparr>"

text \<open>
  \<^verbatim>\<open>histogramQR.data.filter(d => d.bin.value == i)\<close>: every row is visited, and a row
  without a \<^verbatim>\<open>bin\<close> cell throws.
\<close>

fun filterBin :: "host \<Rightarrow> nat \<Rightarrow> row list \<Rightarrow> error + row list" where
  "filterBin h i [] = Inr []"
| "filterBin h i (d # ds) =
     (case map_of d ''bin'' of
        None \<Rightarrow> Inl TypeError
      | Some c \<Rightarrow>
          (case filterBin h i ds of
             Inl e \<Rightarrow> Inl e
           | Inr rs \<Rightarrow> Inr (if loose_eq_index h (value' c) i then d # rs else rs)))"

text \<open>The callback of \<^verbatim>\<open>bins.map\<close> (lines 219-226).\<close>

definition histogramEntry :: "host \<Rightarrow> string \<Rightarrow> row list \<Rightarrow> nat \<times> jsval \<times> jsval \<Rightarrow> error + bin" where
  "histogramEntry h countName rows = (\<lambda>(i, (lo, hi)).
     case filterBin h i rows of
       Inl e \<Rightarrow> Inl e
     | Inr [] \<Rightarrow> Inr \<lparr>bin_value = JNum (Fin 0), bin_min = lo, bin_max = hi\<rparr>
     | Inr (r # _) \<Rightarrow>
         (case map_of r countName of
            None \<Rightarrow> Inl TypeError
          | Some c \<Rightarrow> Inr \<lparr>bin_value = value' c, bin_min = lo, bin_max = hi\<rparr>))"

text \<open>
  Lines 196-228, the branch taken when \<^verbatim>\<open>min.value\<close> is truthy. \<^verbatim>\<open>countField.name\<close>
  is read while the argument of the second query is built.
\<close>

definition histogramStep :: "host \<Rightarrow> sdk \<Rightarrow> 'a FieldInfo_scheme \<Rightarrow> ILookmlModelExploreField option \<Rightarrow> (jsval \<times> jsval) list \<Rightarrow> query list \<Rightarrow> (error + Histogram option) \<times> query list" where
  "histogramStep h sdk info countField bins issued =
     (case countField of
        None \<Rightarrow> (Inl TypeError, issued)
      | Some cf \<Rightarrow>
          (case run_inline_query sdk
                  (histogramQuery info cf (binExpression h (name (field info)) bins)) issued of
             (Inl e, issued1) \<Rightarrow> (Inl e, issued1)
           | (Inr histogramQR, issued1) \<Rightarrow>
               (case collect (map (histogramEntry h (name cf) (qr_data histogramQR))
                                (enumerate 0 bins)) of
                  Inl e \<Rightarrow> (Inl e, issued1)
                | Inr ds \<Rightarrow> (Inr (Some \<lparr>hist_data = ds\<rparr>), issued1))))"

text \<open>\<^verbatim>\<open>x && x.toLocaleString()\<close>: a falsy \<open>x\<close> is the result itself.\<close>

definition localized :: "host \<Rightarrow> jsval \<Rightarrow> error + jsval" where
  "localized h x =
     (if truthy x
      then (case toLocaleString h x of Inl e \<Rightarrow> Inl e | Inr s \<Rightarrow> Inr (JStr s))
      else Inr x)"

text \<open>An object literal \<^verbatim>\<open>{ v: x }\<close>.\<close>

definition datum :: "jsval \<Rightarrow> SimpleDatum" where
  "datum x = \<lparr>v = x, l = None, n = None\<rparr>"

text \<open>Lines 230-239; \<^verbatim>\<open>average\<close> is \<^verbatim>\<open>undefined\<close> when the row has no such cell.\<close>

definition distributionResult :: "host \<Rightarrow> cell \<Rightarrow> cell \<Rightarrow> cell option \<Rightarrow> Histogram option \<Rightarrow> error + SimpleResult" where
  "distributionResult h mn mx average hist =
     (case localized h (value' mn) of
        Inl e \<Rightarrow> Inl e
      | Inr a \<Rightarrow>
          (case localized h (value' mx) of
             Inl e \<Rightarrow> Inl e
           | Inr b \<Rightarrow>
               (case average of
                  None \<Rightarrow> Inl TypeError
                | Some av \<Rightarrow>
                    (case localized h (value' av) of
                       Inl e \<Rightarrow> Inl e
                     | Inr c \<Rightarrow>
                         Inr \<lparr>align = [AlignLeft, AlignRight],
                              data = [[datum (JStr ''Min''), datum a],
                                      [datum (JStr ''Max''), datum b],
                                      [datum (JStr ''Average''), datum c]],
                              max' = [None, None],
                              aux = None,
                              histogram = hist\<rparr>))))"

text \<open>
  \<^verbatim>\<open>getDistribution\<close>. \<^verbatim>\<open>qr.data[0]\<close> is \<^verbatim>\<open>undefined\<close> when the service returned no
  row; \<^verbatim>\<open>max.value - min.value\<close> throws when the row lacks one of the two cells.
\<close>

definition getDistribution :: "host \<Rightarrow> sdk \<Rightarrow> 'a FieldInfo_scheme \<Rightarrow> query list \<Rightarrow> (error + SimpleResult) \<times> query list" where
  "getDistribution h sdk info issued =
     (let countField = countFieldForField info in
      case run_inline_query sdk (statsQuery info) issued of
        (Inl e, issued1) \<Rightarrow> (Inl e, issued1)
      | (Inr qr, issued1) \<Rightarrow>
          (case qr_data qr of
             [] \<Rightarrow> (Inl TypeError, issued1)
           | row0 # _ \<Rightarrow>
               (case (map_of row0 ''min'', map_of row0 ''max'') of
                  (Some mn, Some mx) \<Rightarrow>
                    (let bins = distributionBins h (value' mn) (value' mx) in
                     case (if truthy (value' mn)
                           then histogramStep h sdk info countField bins issued1
                           else (Inr None, issued1)) of
                       (Inl e, issued2) \<Rightarrow> (Inl e, issued2)
                     | (Inr hist, issued2) \<Rightarrow>
                         (distributionResult h mn mx (map_of row0 ''average'') hist, issued2))
                | _ \<Rightarrow> (Inl TypeError, issued1))))"

section \<open>Memoization cache and dispatch\<close>

text \<open>
  The module-level object \<^verbatim>\<open>cache\<close>. Its keys are the \<^verbatim>\<open>JSON.stringify\<close> texts of
  request objects, which start with a brace, so none is the name of a property that the
  object inherits; its values are result objects, which are truthy, so
  \<^verbatim>\<open>!cache[key]\<close> holds exactly when the key has no entry.
\<close>

type_synonym cache = "string \<Rightarrow> SimpleResult option"

text \<open>
  \<^verbatim>\<open>localCache\<close>, when nothing else runs between its call and its return. The getter
  acts on a state \<open>'s\<close> of its own (for the summarizers, the list of issued queries). A
  getter that fails makes the \<^verbatim>\<open>await\<close> throw, before the assignment.
\<close>

definition localCache :: "string \<Rightarrow> ('s \<Rightarrow> (error + SimpleResult) \<times> 's) \<Rightarrow> cache \<times> 's \<Rightarrow> (error + SimpleResult) \<times> (cache \<times> 's)" where
  "localCache key getter = (\<lambda>(c, s).
     case c key of
       Some r \<Rightarrow> (Inr r, (c, s))
     | None \<Rightarrow>
         (case getter s of
            (Inl e, s1) \<Rightarrow> (Inl e, (c, s1))
          | (Inr r, s1) \<Rightarrow> (Inr r, (c(key \<mapsto> r), s1))))"


definition runChartQuery :: "host \<Rightarrow> sdk \<Rightarrow> QueryChartType \<Rightarrow> cache \<times> query list \<Rightarrow> (error + SimpleResult) \<times> (cache \<times> query list)" where
  "runChartQuery h sdk ty =
     (case type' ty of
        Values \<Rightarrow> localCache (stringify h ty) (getTopValues h sdk ty)
      | Distribution \<Rightarrow> localCache (stringify h ty) (getDistribution h sdk ty))"

subsection \<open>Overlapping calls\<close>

text \<open>
  \<^verbatim>\<open>localCache\<close> is an \<^verbatim>\<open>async\<close> function: a call runs without interruption up to
  its \<^verbatim>\<open>await\<close>, and its continuation runs, again without interruption, once the
  awaited promise has settled. A call is therefore two events. \<open>Call c key\<close> is the
  part before the \<^verbatim>\<open>await\<close>, for a caller \<open>c\<close>: the test of \<^verbatim>\<open>cache[key]\<close> and, on a
  miss, the call of the getter, which starts the computation. \<open>Settle c out\<close> is the
  continuation of the call of \<open>c\<close>, with the outcome of its getter: the assignment and
  the return, or the exception. Other calls may start between the two events.
  \<open>invoked\<close> lists the keys for which a getter was called, \<open>awaiting\<close> the suspended
  calls, and \<open>returned\<close> what each finished call gave its caller.
\<close>

datatype event = Call nat string | Settle nat "error + SimpleResult"

record tasks =
  t_cache :: cache
  invoked :: "string list"
  awaiting :: "(nat \<times> string) list"
  returned :: "(nat \<times> (error + SimpleResult)) list"

fun step :: "tasks \<Rightarrow> event \<Rightarrow> tasks" where
  "step st (Call c key) =
     (case t_cache st key of
        Some r \<Rightarrow> st\<lparr>returned := returned st @ [(c, Inr r)]\<rparr>
      | None \<Rightarrow> st\<lparr>invoked := invoked st @ [key], awaiting := awaiting st @ [(c, key)]\<rparr>)"
| "step st (Settle c out) =
     (case map_of (awaiting st) c of
        None \<Rightarrow> st
      | Some key \<Rightarrow>
          (case out of
             Inl e \<Rightarrow>
               st\<lparr>awaiting := filter (\<lambda>(c1, k1). c1 \<noteq> c) (awaiting st),
                  returned := returned st @ [(c, Inl e)]\<rparr>
           | Inr r \<Rightarrow>
               st\<lparr>t_cache := (t_cache st)(key \<mapsto> r),
                  awaiting := filter (\<lambda>(c1, k1). c1 \<noteq> c) (awaiting st),
                  returned := returned st @ [(c, Inr r)]\<rparr>))"

definition run_events :: "tasks \<Rightarrow> event list \<Rightarrow> tasks" where
  "run_events st evs = foldl step st evs"

definition idle :: "cache \<Rightarrow> tasks" where
  "idle c = \<lparr>t_cache = c, invoked = [], awaiting = [], returned = []\<rparr>"

section \<open>A sample runtime and sample data\<close>

text \<open>
  A runtime for the examples: it prints integers in decimal, groups their digits by
  thousands with commas as the \<^verbatim>\<open>en-US\<close> locale does, prints an infinity as the
  infinity sign (three bytes in UTF-8), and reads strings of decimal digits as numbers. Only the integer part of a number that is not an integer is
  printed; the examples read the printed form of integers only.
\<close>

fun dec :: "nat \<Rightarrow> string" where
  "dec k = (if k < 10 then [''0123456789'' ! k] else dec (k div 10) @ [''0123456789'' ! (k mod 10)])"

declare dec.simps [simp del]

fun grouped :: "nat \<Rightarrow> string" where
  "grouped k =
     (if k < 1000 then dec k
      else grouped (k div 1000) @ '','' @
           [''0123456789'' ! (k div 100 mod 10), ''0123456789'' ! (k div 10 mod 10),
            ''0123456789'' ! (k mod 10)])"

declare grouped.simps [simp del]

definition signed :: "(nat \<Rightarrow> string) \<Rightarrow> rat \<Rightarrow> string" where
  "signed f r = (if r < 0 then ''-'' @ f (nat \<lfloor>- r\<rfloor>) else f (nat \<lfloor>r\<rfloor>))"

fun digits_value :: "nat \<Rightarrow> string \<Rightarrow> nat option" where
  "digits_value acc [] = Some acc"
| "digits_value acc (c # cs) =
     (let d = (of_char c :: nat) in
      if 48 \<le> d \<and> d \<le> 57 then digits_value (10 * acc + (d - 48)) cs else None)"

definition sample_host :: host where
  "sample_host =
     \<lparr>numToString = signed dec,
      numToLocaleString = signed grouped,
      infinityToLocaleString = (\<lambda>negative. (if negative then ''-'' else []) @ [CHR 0xE2, CHR 0x88, CHR 0x9E]),
      stringToNumber = (\<lambda>s. case digits_value 0 s of None \<Rightarrow> NaN | Some k \<Rightarrow> Fin (of_nat k)),
      stringify = (\<lambda>ty. ''{'' @ model_name (model ty) @ '','' @ explore_name (explore ty) @ '',''
                     @ name (field ty) @ '','' @ (case type' ty of Values \<Rightarrow> ''Values'' | Distribution \<Rightarrow> ''Distribution'')
                     @ ''}'')\<rparr>"

text \<open>An explore with two count measures and three fields of it.\<close>

definition orders_count :: ILookmlModelExploreField where
  "orders_count = \<lparr>name = ''orders.count'', category = Some ''measure'', ftype = Some ''count'',
     view_label = Some ''Orders'', label_short = Some ''Count''\<rparr>"

definition products_count :: ILookmlModelExploreField where
  "products_count = \<lparr>name = ''products.count'', category = Some ''measure'', ftype = Some ''count'',
     view_label = Some ''Products'', label_short = Some ''Count''\<rparr>"

definition status_field :: ILookmlModelExploreField where
  "status_field = \<lparr>name = ''orders.status'', category = Some ''dimension'', ftype = Some ''string'',
     view_label = Some ''Orders'', label_short = Some ''Status''\<rparr>"

definition price_field :: ILookmlModelExploreField where
  "price_field = \<lparr>name = ''orders.price'', category = Some ''dimension'', ftype = Some ''number'',
     view_label = Some ''Orders'', label_short = Some ''Price''\<rparr>"

definition note_field :: ILookmlModelExploreField where
  "note_field = \<lparr>name = ''users.note'', category = Some ''dimension'', ftype = Some ''string'',
     view_label = Some ''Users'', label_short = Some ''Note''\<rparr>"

definition shop :: ILookmlModelExplore where
  "shop = \<lparr>explore_name = ''order_items'', measures = [products_count, orders_count]\<rparr>"

definition request :: "ILookmlModelExploreField \<Rightarrow> chart_type \<Rightarrow> QueryChartType" where
  "request f t = \<lparr>model = \<lparr>model_name = ''shop''\<rparr>, explore = shop, field = f, type' = t\<rparr>"

definition plain :: "jsval \<Rightarrow> cell" where
  "plain x = \<lparr>value' = x, rendered = None, links = None\<rparr>"

definition num :: "rat \<Rightarrow> cell" where
  "num r = plain (JNum (Fin r))"

text \<open>The answer of the service in the end-to-end Values scenario.\<close>

definition status_response :: response where
  "status_response =
     \<lparr>qr_data = [[(''orders.status'', plain (JStr ''Shipped'')), (''orders.count'', num 120)],
                 [(''orders.status'', plain (JStr ''Pending'')), (''orders.count'', num 45)]],
      totals_data = Some [(''orders.count'', num 165)]\<rparr>"

text \<open>A service that answers a statistics query with the given minimum, maximum and
  average, and any other query with the given rows.\<close>

definition stats_service :: "jsval \<Rightarrow> jsval \<Rightarrow> jsval \<Rightarrow> row list \<Rightarrow> sdk" where
  "stats_service lo hi av rows = (\<lambda>k q.
     if body_fields q = [''min'', ''max'', ''average'']
     then Inr \<lparr>qr_data = [[(''min'', plain lo), (''max'', plain hi), (''average'', plain av)]],
               totals_data = None\<rparr>
     else Inr \<lparr>qr_data = rows, totals_data = None\<rparr>)"

definition bin_row :: "nat \<Rightarrow> rat \<Rightarrow> row" where
  "bin_row i c = [(''bin'', num (of_nat i)), (''orders.count'', num c)]"

text \<open>A service that gives the same answer to every query.\<close>

definition always :: "response \<Rightarrow> sdk" where
  "always qr = (\<lambda>k q. Inr qr)"


definition no_entries :: cache where
  "no_entries = Map.empty"

definition sample_result :: "string \<Rightarrow> SimpleResult" where
  "sample_result s = \<lparr>align = [AlignLeft, AlignRight], data = [], max' = [None, None],
     aux = Some s, histogram = None\<rparr>"

text \<open>The pairs of bounds of the histogram of an outcome; none when there is no histogram.\<close>

definition histogram_bounds :: "error + SimpleResult \<Rightarrow> (jsval \<times> jsval) list" where
  "histogram_bounds out =
     (case out of
        Inl e \<Rightarrow> []
      | Inr res \<Rightarrow>
          (case histogram res of
             None \<Rightarrow> []
           | Some hg \<Rightarrow> map (\<lambda>b. (bin_min b, bin_max b)) (hist_data hg)))"

text \<open>
  Four services for the Distribution scenarios: prices from 10 to 30 with two
  non-empty bins returned, a minimum of 0, the values 0.1 and 0.3 (the binary64
  numbers nearest to them, as \<^verbatim>\<open>JSON.parse\<close> gives them), and the values
  \<open>- 2 ^ 1023\<close> and \<open>2 ^ 1023\<close>, binary64 numbers whose difference is not one.
\<close>

definition price_service :: sdk where
  "price_service = stats_service (JNum (Fin 10)) (JNum (Fin 30)) (JNum (Fin 20)) [bin_row 0 3, bin_row 5 7]"

definition zero_service :: sdk where
  "zero_service = stats_service (JNum (Fin 0)) (JNum (Fin 30)) (JNum (Fin 20)) []"

definition tenths_service :: sdk where
  "tenths_service = stats_service (JNum (Fin (round64 (1 / 10)))) (JNum (Fin (round64 (3 / 10))))
     (JNum (Fin (round64 (1 / 5)))) []"

definition huge_service :: sdk where
  "huge_service = stats_service (JNum (Fin (- (2 ^ 1023)))) (JNum (Fin (2 ^ 1023))) (JNum (Fin 0)) []"

section \<open>Properties of the rounding\<close>

text \<open>
  Rounding is odd and monotone, and it keeps zero. These are the facts about binary64
  arithmetic that the histogram bounds rest on.
\<close>

lemma rne_of_int: "rne (of_int k) = k"
  by (simp add: rne_def)

lemma rne_cases: "rne q = \<lfloor>q\<rfloor> \<or> rne q = \<lfloor>q\<rfloor> + 1"
  by (simp add: rne_def Let_def)

lemma rne_floor_le: "\<lfloor>q\<rfloor> \<le> rne q"
  using rne_cases [of q] by auto

lemma rne_mono: "p \<le> q \<Longrightarrow> rne p \<le> rne q"
proof -
  assume pq: "p \<le> q"
  have fl: "\<lfloor>p\<rfloor> \<le> \<lfloor>q\<rfloor>" using pq by (rule floor_mono)
  show ?thesis
  proof (cases "\<lfloor>p\<rfloor> = \<lfloor>q\<rfloor>")
    case True
    with pq show ?thesis by (auto simp: rne_def Let_def)
  next
    case False
    with fl have "\<lfloor>p\<rfloor> + 1 \<le> \<lfloor>q\<rfloor>" by simp
    moreover have "rne p \<le> \<lfloor>p\<rfloor> + 1" using rne_cases [of p] by auto
    ultimately show ?thesis using rne_floor_le [of q] by linarith
  qed
qed

lemma rne_minus: "rne (- q) = - rne q"
proof (cases "q = of_int \<lfloor>q\<rfloor>")
  case True
  then obtain k where "q = of_int k" by blast
  then have "- q = of_int (- k)" by simp
  then show ?thesis using rne_of_int \<open>q = of_int k\<close> by metis
next
  case False
  then have lt: "of_int \<lfloor>q\<rfloor> < q" using of_int_floor_le [of q] by linarith
  have fm: "\<lfloor>- q\<rfloor> = - \<lfloor>q\<rfloor> - 1"
  proof (rule floor_unique)
    show "of_int (- \<lfloor>q\<rfloor> - 1) \<le> - q"
      using floor_correct [of q] unfolding of_int_diff of_int_minus of_int_add of_int_1 by linarith
    show "- q < of_int (- \<lfloor>q\<rfloor> - 1) + 1"
      using lt unfolding of_int_diff of_int_minus of_int_add of_int_1 by linarith
  qed
  show ?thesis
    unfolding rne_def Let_def fm
    using lt by (auto simp: field_simps)
qed

lemma bitlen_pos: "0 < m \<Longrightarrow> 1 \<le> bitlen m"
  by (auto simp: bitlen_alt_def)

lemma expo_bounds:
  assumes "0 < x"
  shows "2 powi (expo x) \<le> x" and "x < 2 powi (expo x + 1)"
proof -
  have "2 powi (expo x) \<le> x \<and> x < 2 powi (expo x + 1)"
  proof (cases "1 \<le> x")
    case True
    define m where "m = \<lfloor>x\<rfloor>"
    have m: "0 < m" using True by (simp add: m_def)
    have b: "1 \<le> bitlen m" using m by (rule bitlen_pos)
    have e: "expo x = bitlen m - 1" using True by (simp add: expo_def m_def)
    from bitlen_bounds [OF m]
    have lo: "2 ^ nat (bitlen m - 1) \<le> m" and hi: "m < 2 ^ nat (bitlen m)" by auto
    have "(2::rat) powi (bitlen m - 1) = of_int (2 ^ nat (bitlen m - 1))"
      using b by (simp add: power_int_def)
    also have "\<dots> \<le> of_int m" using lo by (simp only: of_int_le_iff)
    also have "\<dots> \<le> x" by (simp add: m_def)
    finally have 1: "2 powi (expo x) \<le> x" by (simp add: e)
    have "m + 1 \<le> 2 ^ nat (bitlen m)" using hi by simp
    then have "(of_int (m + 1) :: rat) \<le> of_int (2 ^ nat (bitlen m))"
      by (simp only: of_int_le_iff)
    moreover have "x < of_int (m + 1)" unfolding m_def by linarith
    moreover have "(2::rat) powi (bitlen m) = of_int (2 ^ nat (bitlen m))"
      using b by (simp add: power_int_def)
    ultimately have 2: "x < 2 powi (expo x + 1)" by (simp add: e)
    from 1 2 show ?thesis ..
  next
    case False
    define k where "k = \<lceil>1 / x\<rceil> - 1"
    have y: "1 < 1 / x" using assms False by simp
    have k: "0 < k" using y by (simp add: k_def less_ceiling_iff)
    have b: "1 \<le> bitlen k" using k by (rule bitlen_pos)
    have e: "expo x = - bitlen k" using False by (simp add: expo_def k_def)
    from bitlen_bounds [OF k]
    have lo: "2 ^ nat (bitlen k - 1) \<le> k" and hi: "k < 2 ^ nat (bitlen k)" by auto
    have ky: "of_int k < 1 / x" unfolding k_def by linarith
    have yk: "1 / x \<le> of_int (k + 1)" unfolding k_def by simp
    have "k + 1 \<le> 2 ^ nat (bitlen k)" using hi by simp
    then have "(of_int (k + 1) :: rat) \<le> of_int (2 ^ nat (bitlen k))"
      by (simp only: of_int_le_iff)
    with yk have "1 / x \<le> 2 ^ nat (bitlen k)" by simp
    then have "1 / 2 ^ nat (bitlen k) \<le> x"
      using assms by (simp add: field_simps)
    moreover have "(2::rat) powi (- bitlen k) = 1 / 2 ^ nat (bitlen k)"
      using b by (simp add: power_int_def field_simps)
    ultimately have 1: "2 powi (expo x) \<le> x" by (simp add: e)
    have "(of_int (2 ^ nat (bitlen k - 1)) :: rat) \<le> of_int k"
      using lo by (simp only: of_int_le_iff)
    then have "(2::rat) ^ nat (bitlen k - 1) \<le> of_int k" by simp
    with ky have "2 ^ nat (bitlen k - 1) < 1 / x" by linarith
    then have "x < 1 / 2 ^ nat (bitlen k - 1)"
      using assms by (simp add: field_simps)
    moreover have "(2::rat) powi (- bitlen k + 1) = 1 / 2 ^ nat (bitlen k - 1)"
    proof (cases "bitlen k = 1")
      case True then show ?thesis by simp
    next
      case False
      with b have "- bitlen k + 1 < 0" by simp
      then show ?thesis using b by (simp add: power_int_def field_simps nat_diff_distrib)
    qed
    ultimately have 2: "x < 2 powi (expo x + 1)" by (simp add: e)
    from 1 2 show ?thesis ..
  qed
  then show "2 powi (expo x) \<le> x" and "x < 2 powi (expo x + 1)" by auto
qed


lemma round64_alt: "x \<noteq> 0 \<Longrightarrow> round64 x = of_int (rne (x / 2 powi (ulp_exp x - 52))) * 2 powi (ulp_exp x - 52)"
  by (simp add: round64_def Let_def)

lemma round64_0: "round64 0 = 0"
  by (simp add: round64_def)

lemma ulp_exp_minus: "ulp_exp (- x) = ulp_exp x"
  by (simp add: ulp_exp_def)

lemma round64_minus: "round64 (- x) = - round64 x"
  by (simp add: round64_def Let_def rne_minus ulp_exp_minus)

lemma expo_mono:
  assumes "0 < x" "x \<le> y"
  shows "expo x \<le> expo y"
proof (rule ccontr)
  assume "\<not> expo x \<le> expo y"
  then have "expo y + 1 \<le> expo x" by simp
  then have "(2::rat) powi (expo y + 1) \<le> 2 powi (expo x)"
    by (intro power_int_increasing) simp_all
  moreover have "y < 2 powi (expo y + 1)" using assms by (intro expo_bounds) simp
  moreover have "2 powi (expo x) \<le> x" using assms by (intro expo_bounds)
  ultimately show False using assms by linarith
qed

lemma round64_pos_upper:
  assumes "0 < x"
  shows "round64 x \<le> 2 powi (ulp_exp x + 1)"
proof -
  define u :: rat where "u = 2 powi (ulp_exp x - 52)"
  have u: "0 < u" by (simp add: u_def)
  have "x < 2 powi (expo x + 1)" using assms by (rule expo_bounds)
  also have "\<dots> \<le> 2 powi (ulp_exp x + 1)"
    using assms by (intro power_int_increasing) (simp_all add: ulp_exp_def)
  also have "\<dots> = 2 ^ 53 * u"
    by (simp add: u_def power_int_diff power_int_add)
  finally have "x / u \<le> of_int (2 ^ 53)" using u by (simp add: field_simps)
  then have "rne (x / u) \<le> 2 ^ 53" using rne_mono rne_of_int by metis
  then have "(of_int (rne (x / u)) :: rat) \<le> of_int (2 ^ 53)" by (simp only: of_int_le_iff)
  then have "of_int (rne (x / u)) * u \<le> 2 ^ 53 * u" using u by simp
  also have "\<dots> = 2 powi (ulp_exp x + 1)"
    by (simp add: u_def power_int_diff power_int_add)
  finally show ?thesis using assms by (simp add: round64_alt u_def)
qed

lemma round64_pos_lower:
  assumes "0 < x" "- 1022 \<le> expo x"
  shows "2 powi (ulp_exp x) \<le> round64 x"
proof -
  define u :: rat where "u = 2 powi (ulp_exp x - 52)"
  have u: "0 < u" by (simp add: u_def)
  have e: "ulp_exp x = expo x" using assms by (simp add: ulp_exp_def)
  have "2 ^ 52 * u = 2 powi (ulp_exp x)"
    by (simp add: u_def power_int_diff)
  also have "\<dots> \<le> x" using assms e expo_bounds(1) by simp
  finally have "of_int (2 ^ 52) \<le> x / u" using u by (simp add: field_simps)
  then have "2 ^ 52 \<le> rne (x / u)" using rne_mono rne_of_int by metis
  then have "(of_int (2 ^ 52) :: rat) \<le> of_int (rne (x / u))" by (simp only: of_int_le_iff)
  then have "2 ^ 52 * u \<le> of_int (rne (x / u)) * u" using u by simp
  moreover have "2 powi (ulp_exp x) = 2 ^ 52 * u"
    by (simp add: u_def power_int_diff)
  moreover have "round64 x = of_int (rne (x / u)) * u"
    using assms by (simp add: round64_alt u_def)
  ultimately show ?thesis by (simp only:)
qed

lemma round64_nonneg: "0 \<le> x \<Longrightarrow> 0 \<le> round64 x"
proof (cases "x = 0")
  case True then show ?thesis by (simp add: round64_0)
next
  case False
  assume "0 \<le> x"
  then have "0 \<le> x / 2 powi (ulp_exp x - 52)" by simp
  then have "0 \<le> rne (x / 2 powi (ulp_exp x - 52))"
    using rne_mono [of 0] rne_of_int [of 0] by simp
  then show ?thesis using False by (simp add: round64_alt)
qed

lemma round64_mono_pos:
  assumes "0 < x" "x \<le> y"
  shows "round64 x \<le> round64 y"
proof -
  have y: "0 < y" using assms by simp
  have le: "ulp_exp x \<le> ulp_exp y"
    using expo_mono [OF assms] assms by (simp add: ulp_exp_def)
  show ?thesis
  proof (cases "ulp_exp x = ulp_exp y")
    case True
    define u :: rat where "u = 2 powi (ulp_exp y - 52)"
    have u: "0 < u" by (simp add: u_def)
    have "x / u \<le> y / u" using assms u by (simp add: divide_right_mono)
    then have "rne (x / u) \<le> rne (y / u)" by (rule rne_mono)
    then have "(of_int (rne (x / u)) :: rat) \<le> of_int (rne (y / u))" by (simp only: of_int_le_iff)
    then have "of_int (rne (x / u)) * u \<le> of_int (rne (y / u)) * u" using u by simp
    then show ?thesis using assms y True by (simp add: round64_alt u_def)
  next
    case False
    with le have lt: "ulp_exp x + 1 \<le> ulp_exp y" by simp
    then have n: "- 1022 \<le> expo y" using y by (simp add: ulp_exp_def max_def split: if_splits)
    have "round64 x \<le> 2 powi (ulp_exp x + 1)" using assms(1) by (rule round64_pos_upper)
    also have "\<dots> \<le> 2 powi (ulp_exp y)" using lt by (intro power_int_increasing) simp_all
    also have "\<dots> \<le> round64 y" using y n by (rule round64_pos_lower)
    finally show ?thesis .
  qed
qed

lemma round64_mono: "x \<le> y \<Longrightarrow> round64 x \<le> round64 y"
proof -
  assume xy: "x \<le> y"
  consider "0 < x" | "x \<le> 0" "0 \<le> y" | "y < 0" by linarith
  then show ?thesis
  proof cases
    case 1
    then show ?thesis using xy by (rule round64_mono_pos)
  next
    case 2
    have "round64 x \<le> 0" using round64_nonneg [of "- x"] 2 by (simp add: round64_minus)
    moreover have "0 \<le> round64 y" using 2 by (intro round64_nonneg)
    ultimately show ?thesis by simp
  next
    case 3
    have "round64 (- y) \<le> round64 (- x)" using 3 xy by (intro round64_mono_pos) simp_all
    then show ?thesis by (simp add: round64_minus)
  qed
qed


section \<open>Auxiliary facts\<close>

lemma collect_map_Inr:
  assumes "\<forall>x \<in> set xs. \<exists>y. f x = Inr y"
  shows "\<exists>ys. collect (map f xs) = Inr ys \<and> length ys = length xs
           \<and> (\<forall>i < length xs. f (xs ! i) = Inr (ys ! i))"
  using assms
proof (induction xs)
  case Nil
  then show ?case by simp
next
  case (Cons x xs)
  then obtain y where y: "f x = Inr y" by auto
  from Cons obtain ys where ys: "collect (map f xs) = Inr ys" "length ys = length xs"
    "\<forall>i < length xs. f (xs ! i) = Inr (ys ! i)" by auto
  have "\<forall>i < length (x # xs). f ((x # xs) ! i) = Inr ((y # ys) ! i)"
    using y ys(3) by (auto simp: nth_Cons split: nat.splits)
  then show ?case using y ys by auto
qed

lemma formatData_Some: "\<exists>r. formatData h (Some d) = Inr r"
  by (simp add: formatData_def Let_def)

lemma formatRow_Inr:
  assumes "map_of r f = Some a" "map_of r c = Some b"
  shows "\<exists>x y. formatRow h f c r = Inr [x, y]
           \<and> formatData h (map_of r f) = Inr x \<and> formatData h (map_of r c) = Inr y"
proof -
  obtain x where x: "formatData h (Some a) = Inr x" using formatData_Some by blast
  obtain y where y: "formatData h (Some b) = Inr y" using formatData_Some by blast
  show ?thesis using assms x y by (simp add: formatRow_def)
qed

lemma formatData_count:
  "value' c0 = JNum cnt \<Longrightarrow> formatData h (Some c0) = Inr b \<Longrightarrow> n b = Some cnt"
  by (auto simp: formatData_def Let_def)

lemma localized_Inr: "\<exists>y. localized h x = Inr y \<and> (\<not> truthy x \<longrightarrow> y = x)"
  by (cases x rule: truthy.cases) (simp_all add: localized_def)

lemmas sample_defs = sample_host_def signed_def request_def shop_def orders_count_def
  products_count_def status_field_def price_field_def note_field_def plain_def num_def
  status_response_def always_def

lemma sample_host_grouping: "numToLocaleString sample_host 1234567 = ''1,234,567''"
  by (simp add: sample_host_def signed_def grouped.simps dec.simps)

lemma collect_Inr_nth:
  "collect xs = Inr ys \<Longrightarrow> length ys = length xs \<and> (\<forall>i < length xs. xs ! i = Inr (ys ! i))"
proof (induction xs arbitrary: ys)
  case Nil
  then show ?case by simp
next
  case (Cons x xs)
  then obtain y zs where y: "x = Inr y" and zs: "collect xs = Inr zs" and ys: "ys = y # zs"
    by (auto split: sum.splits)
  from Cons.IH [OF zs] have "length zs = length xs" "\<forall>i < length xs. xs ! i = Inr (zs ! i)"
    by auto
  then show ?case using y ys by (auto simp: nth_Cons split: nat.splits)
qed

lemma filterBin_Inr:
  "filterBin h i rows = Inr rs \<Longrightarrow>
     set rs = {r \<in> set rows. \<exists>c. map_of r ''bin'' = Some c \<and> loose_eq_index h (value' c) i}"
proof (induction rows arbitrary: rs)
  case Nil
  then show ?case by simp
next
  case (Cons d ds)
  then obtain c rs1 where c: "map_of d ''bin'' = Some c" and rs1: "filterBin h i ds = Inr rs1"
    and rs: "rs = (if loose_eq_index h (value' c) i then d # rs1 else rs1)"
    by (auto split: option.splits sum.splits)
  from Cons.IH [OF rs1] show ?case using c rs by auto
qed

lemma histogramEntry_bounds:
  "histogramEntry h cn rows (i, lo, hi) = Inr b \<Longrightarrow> bin_min b = lo \<and> bin_max b = hi"
  by (auto simp: histogramEntry_def split: sum.splits list.splits option.splits)

lemma histogramEntry_no_row:
  assumes "histogramEntry h cn rows (i, lo, hi) = Inr b"
    and "\<forall>r \<in> set rows. \<forall>c. map_of r ''bin'' = Some c \<longrightarrow> \<not> loose_eq_index h (value' c) i"
  shows "bin_value b = JNum (Fin 0)"
proof -
  from assms(1) obtain rs where rs: "filterBin h i rows = Inr rs"
    by (auto simp: histogramEntry_def split: sum.splits)
  from filterBin_Inr [OF rs] assms(2) have "set rs = {}" by auto
  then have "rs = []" by simp
  with assms(1) rs show ?thesis by (auto simp add: histogramEntry_def)
qed

lemma length_distributionBins: "length (distributionBins h lo hi) = 20"
  by (simp add: distributionBins_def binCount_def Let_def)

lemma histogramStep_Some:
  assumes "histogramStep h sdk info cfo bins issued = (Inr (Some hg), issued1)"
  shows "\<exists>cf hqr. cfo = Some cf
      \<and> sdk (length issued) (histogramQuery info cf (binExpression h (name (field info)) bins)) = Inr hqr
      \<and> issued1 = issued @ [histogramQuery info cf (binExpression h (name (field info)) bins)]
      \<and> length (hist_data hg) = length bins
      \<and> (\<forall>i < length bins.
            histogramEntry h (name cf) (qr_data hqr) (i, bins ! i) = Inr (hist_data hg ! i))"
proof -
  from assms obtain cf hqr ds where cf: "cfo = Some cf"
    and q: "sdk (length issued) (histogramQuery info cf (binExpression h (name (field info)) bins)) = Inr hqr"
    and i1: "issued1 = issued @ [histogramQuery info cf (binExpression h (name (field info)) bins)]"
    and ds: "collect (map (histogramEntry h (name cf) (qr_data hqr)) (enumerate 0 bins)) = Inr ds"
    and hg: "hg = \<lparr>hist_data = ds\<rparr>"
    by (auto simp: histogramStep_def run_inline_query_def split: option.splits sum.splits)
  from collect_Inr_nth [OF ds]
  have len: "length ds = length bins"
    and nth: "\<forall>i < length bins. map (histogramEntry h (name cf) (qr_data hqr)) (enumerate 0 bins) ! i = Inr (ds ! i)"
    by auto
  have "\<forall>i < length bins. histogramEntry h (name cf) (qr_data hqr) (i, bins ! i) = Inr (ds ! i)"
    using nth by (auto simp: nth_enumerate_eq)
  then show ?thesis using cf q i1 len hg by auto
qed

lemma getDistribution_histogram:
  assumes "getDistribution h sdk info issued = (Inr res, issued2)"
    and "histogram res = Some hg"
  shows "\<exists>qr row0 rest mn mx.
       sdk (length issued) (statsQuery info) = Inr qr
     \<and> qr_data qr = row0 # rest
     \<and> map_of row0 ''min'' = Some mn \<and> map_of row0 ''max'' = Some mx
     \<and> truthy (value' mn)
     \<and> histogramStep h sdk info (countFieldForField info)
          (distributionBins h (value' mn) (value' mx)) (issued @ [statsQuery info])
         = (Inr (Some hg), issued2)"
  using assms
  by (auto simp: getDistribution_def run_inline_query_def Let_def distributionResult_def
      split: sum.splits list.splits option.splits prod.splits if_splits)


lemma binSize64_nonneg: "0 \<le> binSize64 a b"
  unfolding binSize64_def by (rule round64_nonneg) simp

lemma bin_bound_mono: "bin_bound a b i \<le> bin_bound a b (i + 1)"
proof -
  have "binSize64 a b * of_nat i \<le> binSize64 a b * of_nat (i + 1)"
    using binSize64_nonneg [of a b] by (intro mult_left_mono) simp_all
  then have "round64 (binSize64 a b * of_nat i) \<le> round64 (binSize64 a b * of_nat (i + 1))"
    by (rule round64_mono)
  then have "a + round64 (binSize64 a b * of_nat i) \<le> a + round64 (binSize64 a b * of_nat (i + 1))"
    by simp
  then show ?thesis unfolding bin_bound_def by (rule round64_mono)
qed

lemma bin_bound_0: "round64 a = a \<Longrightarrow> bin_bound a b 0 = a"
  by (simp add: bin_bound_def round64_0)

lemma bin_bound_exact:
  assumes "a \<le> b" "round64 b = b" "round64 (b - a) = b - a" "round64 ((b - a) / 20) = (b - a) / 20"
  shows "bin_bound a b 20 = b"
proof -
  have "binSize64 a b = (b - a) / 20" using assms by (simp add: binSize64_def)
  then show ?thesis using assms by (simp add: bin_bound_def)
qed


lemma to_binary64_cases:
  "to_binary64 x = PosInfinity \<or> to_binary64 x = NegInfinity
   \<or> (to_binary64 x = Fin (round64 x) \<and> \<bar>round64 x\<bar> < 2 ^ 1024)"
  by (auto simp: to_binary64_def Let_def)

lemma to_binary64_Fin_iff:
  "to_binary64 x = Fin y \<longleftrightarrow> y = round64 x \<and> \<bar>round64 x\<bar> < 2 ^ 1024"
  by (auto simp: to_binary64_def Let_def)

lemma distributionBins_nth:
  assumes "i < 20"
  shows "distributionBins h lo hi ! i =
    (js_plus h lo (num_mul (num_div (num_abs (js_minus h hi lo)) (Fin 20)) (Fin (of_nat i))),
     js_plus h lo (num_mul (num_div (num_abs (js_minus h hi lo)) (Fin 20)) (Fin (of_nat (i + 1)))))"
  using assms by (simp add: distributionBins_def binCount_def Let_def)

text \<open>The bound of index i as the code computes it.\<close>

lemma distributionBins_Fin_nth:
  "i < 20 \<Longrightarrow> distributionBins h (JNum (Fin a)) (JNum (Fin b)) ! i
     = (JNum (bound_of a b i), JNum (bound_of a b (i + 1)))"
  by (simp add: distributionBins_nth bound_of_def js_minus_def)

lemma bound_of_overflow:
  assumes "to_binary64 (b - a) = PosInfinity \<or> to_binary64 (b - a) = NegInfinity"
  shows "bound_of a b 0 = NaN" and "0 < i \<Longrightarrow> bound_of a b i = PosInfinity"
  using assms by (auto simp: bound_of_def infinity_of_def)

lemma bound_of_finite:
  assumes A: "to_binary64 a = Fin a"
    and L: "bound_of a b 20 = Fin z"
    and i: "i \<le> 20"
  shows "bound_of a b i = Fin (bin_bound a b i)"
proof -
  have a: "\<bar>a\<bar> < 2 ^ 1024" "round64 a = a" using A by (auto simp: to_binary64_Fin_iff)
  have "to_binary64 (b - a) \<noteq> PosInfinity \<and> to_binary64 (b - a) \<noteq> NegInfinity"
    using L bound_of_overflow(2) [of b a 20] by auto
  with to_binary64_cases [of "b - a"]
  have r: "to_binary64 (b - a) = Fin (round64 (b - a))" by auto
  define s where "s = binSize64 a b"
  have s0: "0 \<le> s" unfolding s_def by (rule binSize64_nonneg)
  have S: "num_div (num_abs (num_sub (Fin b) (Fin a))) (Fin 20) = to_binary64 (\<bar>round64 (b - a)\<bar> / 20)"
    using r by simp
  have Sfin: "to_binary64 (\<bar>round64 (b - a)\<bar> / 20) = Fin s"
  proof -
    from to_binary64_cases [of "\<bar>round64 (b - a)\<bar> / 20"]
    consider "to_binary64 (\<bar>round64 (b - a)\<bar> / 20) = PosInfinity"
      | "to_binary64 (\<bar>round64 (b - a)\<bar> / 20) = NegInfinity"
      | "to_binary64 (\<bar>round64 (b - a)\<bar> / 20) = Fin (round64 (\<bar>round64 (b - a)\<bar> / 20))"
      by auto
    then show ?thesis
    proof cases
      case 1
      then show ?thesis using L S by (simp add: bound_of_def infinity_of_def)
    next
      case 2
      then show ?thesis using L S by (simp add: bound_of_def infinity_of_def)
    next
      case 3
      then show ?thesis by (simp add: s_def binSize64_def)
    qed
  qed
  have b: "bound_of a b k = num_add (Fin a) (to_binary64 (s * of_nat k))" for k
    using S Sfin by (simp add: bound_of_def)
  have x20: "to_binary64 (s * 20) = Fin (round64 (s * 20))"
    and x20b: "\<bar>round64 (s * 20)\<bar> < 2 ^ 1024"
    using L b [of 20] to_binary64_cases [of "s * 20"] by auto
  have z: "z = round64 (a + round64 (s * 20))" "\<bar>round64 (a + round64 (s * 20))\<bar> < 2 ^ 1024"
    using L b [of 20] x20 by (auto simp: to_binary64_Fin_iff)
  have xi0: "0 \<le> round64 (s * of_nat i)" using s0 by (intro round64_nonneg) simp
  have "s * of_nat i \<le> s * 20" using s0 i by (intro mult_left_mono) simp_all
  then have xi20: "round64 (s * of_nat i) \<le> round64 (s * 20)" by (rule round64_mono)
  have xi: "to_binary64 (s * of_nat i) = Fin (round64 (s * of_nat i))"
    using xi0 xi20 x20b by (simp add: to_binary64_Fin_iff)
  have lo: "a \<le> round64 (a + round64 (s * of_nat i))"
    using round64_mono [of a "a + round64 (s * of_nat i)"] xi0 a(2) by simp
  have hi: "round64 (a + round64 (s * of_nat i)) \<le> round64 (a + round64 (s * 20))"
    using xi20 by (intro round64_mono) simp
  have "\<bar>round64 (a + round64 (s * of_nat i))\<bar> < 2 ^ 1024"
    using lo hi a(1) z(2) by linarith
  then have "to_binary64 (a + round64 (s * of_nat i)) = Fin (round64 (a + round64 (s * of_nat i)))"
    by (simp add: to_binary64_Fin_iff)
  moreover have "bound_of a b i = to_binary64 (a + round64 (s * of_nat i))"
    unfolding b xi by simp
  ultimately show ?thesis by (simp add: bin_bound_def s_def)
qed

lemma round64_pow2: "round64 (2 ^ k) = 2 ^ k"
proof -
  have fl: "\<lfloor>(2::rat) ^ k\<rfloor> = 2 ^ k"
    by (metis floor_of_int of_int_numeral of_int_power)
  have "bitlen (1 * 2 ^ k) = bitlen 1 + int k" by (rule bitlen_pow2) simp
  moreover have "bitlen 1 = 1" by (simp add: bitlen_alt_def)
  ultimately have bl: "bitlen (2 ^ k) = int k + 1" by simp
  have e: "expo (2 ^ k) = int k" by (simp add: expo_def fl bl)
  have u: "ulp_exp (2 ^ k) = int k" by (simp add: ulp_exp_def e)
  have "(2::rat) ^ k / 2 powi (int k - 52) = 2 powi 52"
    by (simp add: power_int_diff)
  also have "\<dots> = of_int (2 ^ 52)" by simp
  finally have "rne (2 ^ k / 2 powi (int k - 52)) = 2 ^ 52" by (simp only: rne_of_int)
  then have "round64 (2 ^ k) = of_int (2 ^ 52) * 2 powi (int k - 52)"
    by (simp add: round64_alt u)
  also have "\<dots> = 2 ^ k" by (simp add: power_int_diff)
  finally show ?thesis .
qed

lemma huge_range: "to_binary64 (2 ^ 1023 - (- (2 ^ 1023))) = PosInfinity"
proof -
  have "(2::rat) ^ 1023 - (- (2 ^ 1023)) = 2 ^ 1024" by simp
  then show ?thesis by (simp only: to_binary64_def Let_def round64_pow2) simp
qed

lemma huge_min: "to_binary64 (- (2 ^ 1023)) = Fin (- (2 ^ 1023))"
proof -
  have r: "round64 (- (2 ^ 1023)) = - (2 ^ 1023)" by (simp only: round64_minus round64_pow2)
  show ?thesis unfolding to_binary64_Fin_iff r by simp
qed


lemma bin_bound_mono_le: "i \<le> j \<Longrightarrow> bin_bound a b i \<le> bin_bound a b j"
proof (induction j)
  case 0
  then show ?case by simp
next
  case (Suc j)
  show ?case
  proof (cases "i = Suc j")
    case True
    then show ?thesis by simp
  next
    case False
    then have "bin_bound a b i \<le> bin_bound a b j" using Suc by simp
    also have "\<dots> \<le> bin_bound a b (Suc j)" using bin_bound_mono [of a b j] by simp
    finally show ?thesis .
  qed
qed

lemma bin_bound_cover:
  assumes lo: "bin_bound a b 0 \<le> x" and hi: "x < bin_bound a b k"
  shows "\<exists>!i. i < k \<and> bin_bound a b i \<le> x \<and> x < bin_bound a b (i + 1)"
proof -
  define i where "i = (LEAST j. x < bin_bound a b (j + 1))"
  have k: "0 < k" using lo hi by (cases k) auto
  then have "x < bin_bound a b ((k - 1) + 1)" using hi by simp
  then have up: "x < bin_bound a b (i + 1)" and least: "i \<le> k - 1"
    unfolding i_def by (rule LeastI, rule Least_le)
  have low: "bin_bound a b i \<le> x"
  proof (cases i)
    case 0
    then show ?thesis using lo by simp
  next
    case (Suc j)
    then have "j < i" by simp
    then have "\<not> x < bin_bound a b (j + 1)" unfolding i_def by (rule not_less_Least)
    then show ?thesis using Suc by simp
  qed
  have uniq: "j = i" if "j < k" "bin_bound a b j \<le> x" "x < bin_bound a b (j + 1)" for j
  proof (rule ccontr)
    assume "j \<noteq> i"
    then consider "j + 1 \<le> i" | "i + 1 \<le> j" by linarith
    then show False
    proof cases
      case 1
      from bin_bound_mono_le [OF this, of a b] that low show False by simp
    next
      case 2
      from bin_bound_mono_le [OF this, of a b] that up show False by simp
    qed
  qed
  show ?thesis
  proof (rule ex1I [of _ i])
    show "i < k \<and> bin_bound a b i \<le> x \<and> x < bin_bound a b (i + 1)"
      using k least low up by simp
  qed (use uniq in blast)
qed

lemma bound_of_forward:
  assumes "\<bar>round64 (b - a)\<bar> < m" "\<bar>binSize64 a b\<bar> < m"
    "\<bar>round64 (binSize64 a b * of_nat i)\<bar> < m" "\<bar>bin_bound a b i\<bar> < m"
    and m: "m \<le> 2 ^ 1024"
  shows "bound_of a b i = Fin (bin_bound a b i)"
proof -
  have 1: "to_binary64 (b - a) = Fin (round64 (b - a))"
    using assms(1) m by (simp add: to_binary64_Fin_iff)
  have 2: "to_binary64 (\<bar>round64 (b - a)\<bar> / 20) = Fin (binSize64 a b)"
    using assms(2) m by (simp add: to_binary64_Fin_iff binSize64_def)
  have 3: "to_binary64 (binSize64 a b * of_nat i) = Fin (round64 (binSize64 a b * of_nat i))"
    using assms(3) m by (simp add: to_binary64_Fin_iff)
  have 4: "to_binary64 (a + round64 (binSize64 a b * of_nat i)) = Fin (bin_bound a b i)"
    using assms(4) m by (simp add: to_binary64_Fin_iff bin_bound_def)
  show ?thesis by (simp add: bound_of_def 1 2 3 4)
qed

lemma getDistribution_bins:
  assumes run: "getDistribution h sdk info issued = (Inr res, issued2)"
    and hist: "histogram res = Some hg"
    and stats: "sdk (length issued) (statsQuery info) = Inr qr" "qr_data qr = row0 # rest"
      "map_of row0 ''min'' = Some mn" "map_of row0 ''max'' = Some mx"
  shows "length (hist_data hg) = 20"
    and "i < 20 \<Longrightarrow> bin_min (hist_data hg ! i) = fst (distributionBins h (value' mn) (value' mx) ! i)"
    and "i < 20 \<Longrightarrow> bin_max (hist_data hg ! i) = snd (distributionBins h (value' mn) (value' mx) ! i)"
proof -
  let ?bins = "distributionBins h (value' mn) (value' mx)"
  from getDistribution_histogram [OF run hist] stats
  obtain issued1 where
    "histogramStep h sdk info (countFieldForField info) ?bins issued1 = (Inr (Some hg), issued2)"
    by auto
  from histogramStep_Some [OF this] obtain cf :: ILookmlModelExploreField and hqr :: response where
    len: "length (hist_data hg) = length ?bins"
    and ent: "\<forall>i < length ?bins.
       histogramEntry h (name cf) (qr_data hqr) (i, ?bins ! i) = Inr (hist_data hg ! i)"
    by blast
  show "length (hist_data hg) = 20" using len by (simp add: length_distributionBins)
  have both: "bin_min (hist_data hg ! i) = fst (?bins ! i) \<and> bin_max (hist_data hg ! i) = snd (?bins ! i)"
    if "i < 20"
  proof -
    obtain lo hi where p: "?bins ! i = (lo, hi)" by (cases "?bins ! i") auto
    from ent that have "histogramEntry h (name cf) (qr_data hqr) (i, ?bins ! i) = Inr (hist_data hg ! i)"
      by (simp add: length_distributionBins)
    then have "histogramEntry h (name cf) (qr_data hqr) (i, lo, hi) = Inr (hist_data hg ! i)"
      by (simp add: p)
    from histogramEntry_bounds [OF this] show ?thesis by (simp add: p)
  qed
  show "i < 20 \<Longrightarrow> bin_min (hist_data hg ! i) = fst (?bins ! i)" using both by simp
  show "i < 20 \<Longrightarrow> bin_max (hist_data hg ! i) = snd (?bins ! i)" using both by simp
qed

lemma getDistribution_bounds:
  assumes run: "getDistribution h sdk info issued = (Inr res, issued2)"
    and hist: "histogram res = Some hg"
    and stats: "sdk (length issued) (statsQuery info) = Inr qr" "qr_data qr = row0 # rest"
      "map_of row0 ''min'' = Some mn" "map_of row0 ''max'' = Some mx"
    and nums: "value' mn = JNum (Fin a)" "value' mx = JNum (Fin b)"
  shows "length (hist_data hg) = 20"
    and "i < 20 \<Longrightarrow> bin_min (hist_data hg ! i) = JNum (bound_of a b i)"
    and "i < 20 \<Longrightarrow> bin_max (hist_data hg ! i) = JNum (bound_of a b (i + 1))"
  using getDistribution_bins [OF run hist stats] nums
  by (simp_all add: distributionBins_Fin_nth)

lemma filterBin_total:
  assumes "\<forall>r \<in> set rows. map_of r ''bin'' \<noteq> None"
  shows "\<exists>rs. filterBin h i rows = Inr rs \<and> set rs \<subseteq> set rows"
  using assms
proof (induction rows)
  case Nil
  then show ?case by simp
next
  case (Cons d ds)
  then obtain c where "map_of d ''bin'' = Some c" by auto
  moreover from Cons obtain rs where "filterBin h i ds = Inr rs" "set rs \<subseteq> set ds" by auto
  ultimately show ?case by auto
qed

lemma histogramEntry_total:
  assumes "\<forall>r \<in> set rows. map_of r ''bin'' \<noteq> None \<and> map_of r cn \<noteq> None"
  shows "\<exists>b. histogramEntry h cn rows x = Inr b"
proof -
  obtain i lo hi where x: "x = (i, lo, hi)" by (cases x) auto
  from assms filterBin_total [of rows h i]
  obtain rs where rs: "filterBin h i rows = Inr rs" "set rs \<subseteq> set rows" by auto
  show ?thesis
  proof (cases rs)
    case Nil
    with rs x show ?thesis by (simp add: histogramEntry_def)
  next
    case (Cons r rs1)
    with rs(2) have "r \<in> set rows" by auto
    with assms obtain c where "map_of r cn = Some c" by auto
    with rs Cons x show ?thesis by (simp add: histogramEntry_def)
  qed
qed

lemma getDistribution_produces:
  assumes "sdk (length issued) (statsQuery info) = Inr qr" "qr_data qr = row0 # rest"
    and "map_of row0 ''min'' = Some mn" "map_of row0 ''max'' = Some mx"
      "map_of row0 ''average'' = Some av"
    and "truthy (value' mn)"
    and "countFieldForField info = Some cf"
    and "sdk (Suc (length issued)) (histogramQuery info cf
           (binExpression h (name (field info)) (distributionBins h (value' mn) (value' mx))))
         = Inr hqr"
    and "\<forall>r \<in> set (qr_data hqr). map_of r ''bin'' \<noteq> None \<and> map_of r (name cf) \<noteq> None"
  shows "\<exists>res hg. getDistribution h sdk info issued =
      (Inr res, issued @ [statsQuery info, histogramQuery info cf
           (binExpression h (name (field info)) (distributionBins h (value' mn) (value' mx)))])
     \<and> histogram res = Some hg"
proof -
  let ?bins = "distributionBins h (value' mn) (value' mx)"
  have "\<forall>x \<in> set (enumerate 0 ?bins). \<exists>b. histogramEntry h (name cf) (qr_data hqr) x = Inr b"
    using histogramEntry_total [OF assms(9)] by blast
  from collect_map_Inr [OF this] obtain ds where
    ds: "collect (map (histogramEntry h (name cf) (qr_data hqr)) (enumerate 0 ?bins)) = Inr ds"
    by blast
  obtain x where x: "localized h (value' mn) = Inr x" using localized_Inr by blast
  obtain y where y: "localized h (value' mx) = Inr y" using localized_Inr by blast
  obtain z where z: "localized h (value' av) = Inr z" using localized_Inr by blast
  show ?thesis
    using assms(1-8) ds x y z
    by (simp add: getDistribution_def run_inline_query_def Let_def histogramStep_def
        distributionResult_def)
qed

lemma price_count: "countFieldForField (request price_field Distribution) = Some orders_count"
  by (simp add: countFieldForField_def sample_defs)

lemma stats_service_stats:
  "stats_service lo hi av rows k (statsQuery info)
     = Inr \<lparr>qr_data = [[(''min'', plain lo), (''max'', plain hi), (''average'', plain av)]],
            totals_data = None\<rparr>"
  by (simp add: stats_service_def statsQuery_def)

lemma stats_service_histogram:
  "stats_service lo hi av rows k (histogramQuery info cf e) = Inr \<lparr>qr_data = rows, totals_data = None\<rparr>"
  by (simp add: stats_service_def histogramQuery_def)

lemma stats_service_produces:
  assumes "truthy lo" "countFieldForField info = Some cf"
    and "\<forall>r \<in> set rows. map_of r ''bin'' \<noteq> None \<and> map_of r (name cf) \<noteq> None"
  shows "\<exists>res hg issued2. getDistribution h (stats_service lo hi av rows) info [] = (Inr res, issued2)
     \<and> histogram res = Some hg"
proof -
  let ?qr = "\<lparr>qr_data = [[(''min'', plain lo), (''max'', plain hi), (''average'', plain av)]],
            totals_data = None\<rparr>"
  have 1: "stats_service lo hi av rows (length ([]::query list)) (statsQuery info) = Inr ?qr"
    by (rule stats_service_stats)
  have 2: "qr_data ?qr = [(''min'', plain lo), (''max'', plain hi), (''average'', plain av)] # []"
    by simp
  have 3: "map_of [(''min'', plain lo), (''max'', plain hi), (''average'', plain av)] ''min'' = Some (plain lo)"
    "map_of [(''min'', plain lo), (''max'', plain hi), (''average'', plain av)] ''max'' = Some (plain hi)"
    "map_of [(''min'', plain lo), (''max'', plain hi), (''average'', plain av)] ''average'' = Some (plain av)"
    by simp_all
  have 4: "truthy (value' (plain lo))" using assms(1) by (simp add: plain_def)
  have 5: "stats_service lo hi av rows (Suc (length ([]::query list))) (histogramQuery info cf
           (binExpression h (name (field info))
              (distributionBins h (value' (plain lo)) (value' (plain hi)))))
         = Inr \<lparr>qr_data = rows, totals_data = None\<rparr>"
    by (rule stats_service_histogram)
  have 6: "\<forall>r \<in> set (qr_data \<lparr>qr_data = rows, totals_data = None\<rparr>).
      map_of r ''bin'' \<noteq> None \<and> map_of r (name cf) \<noteq> None"
    using assms(3) by simp
  from getDistribution_produces [where sdk = "stats_service lo hi av rows" and issued = "[]",
      OF 1 2 3 4 assms(2) 5 6]
  show ?thesis by blast
qed

lemma stats_row:
  "qr_data \<lparr>qr_data = [[(''min'', plain lo), (''max'', plain hi), (''average'', plain av)]],
            totals_data = None\<rparr>
     = [(''min'', plain lo), (''max'', plain hi), (''average'', plain av)] # []"
  "map_of [(''min'', plain lo), (''max'', plain hi), (''average'', plain av)] ''min'' = Some (plain lo)"
  "map_of [(''min'', plain lo), (''max'', plain hi), (''average'', plain av)] ''max'' = Some (plain hi)"
  "map_of [(''min'', plain lo), (''max'', plain hi), (''average'', plain av)] ''average'' = Some (plain av)"
  "value' (plain lo) = lo"
  by (simp_all add: plain_def)

lemma getDistribution_issued:
  "snd (getDistribution h sdk info issued) = issued @ [statsQuery info]
   \<or> (\<exists>cf e. snd (getDistribution h sdk info issued)
         = issued @ [statsQuery info, histogramQuery info cf e])"
  by (auto simp: getDistribution_def run_inline_query_def Let_def histogramStep_def
      split: sum.splits list.splits option.splits prod.splits)

lemma limit_queries:
  "limit (statsQuery info) = 10" "limit (histogramQuery info cf e) = 10"
  "limit (topValuesQuery info cf) = 10"
  by (simp_all add: statsQuery_def histogramQuery_def topValuesQuery_def)

lemma getDistribution_issues_stats:
  "\<exists>more. snd (getDistribution h sdk info issued) = issued @ statsQuery info # more"
  using getDistribution_issued [of h sdk info issued] by auto

lemma getTopValues_issued:
  "countFieldForField info = Some cf \<Longrightarrow>
     snd (getTopValues h sdk info issued) = issued @ [topValuesQuery info cf]"
  by (simp add: getTopValues_def run_inline_query_def split: sum.splits)

lemma getTopValues_no_count:
  "countFieldForField info = None \<Longrightarrow> getTopValues h sdk info issued = (Inl TypeError, issued)"
  by (simp add: getTopValues_def)

lemma localCache_miss_state:
  "c key = None \<Longrightarrow> snd (snd (localCache key getter (c, s))) = snd (getter s)"
  by (simp add: localCache_def split: prod.splits sum.splits)

lemma localCache_miss_outcome:
  "c key = None \<Longrightarrow> fst (localCache key getter (c, s)) = fst (getter s)"
  by (simp add: localCache_def split: prod.splits sum.splits)

lemma note_count: "countFieldForField (request note_field t) = None"
  by (simp add: countFieldForField_def sample_defs)

lemma calls_without_entry:
  "t_cache st key = None \<Longrightarrow>
     invoked (run_events st (map (\<lambda>c. Call c key) cs)) = invoked st @ replicate (length cs) key
   \<and> t_cache (run_events st (map (\<lambda>c. Call c key) cs)) = t_cache st
   \<and> awaiting (run_events st (map (\<lambda>c. Call c key) cs)) = awaiting st @ map (\<lambda>c. (c, key)) cs
   \<and> returned (run_events st (map (\<lambda>c. Call c key) cs)) = returned st"
proof (induction cs arbitrary: st)
  case Nil
  then show ?case by (simp add: run_events_def)
next
  case (Cons c cs)
  define st1 where "st1 = step st (Call c key)"
  have s: "invoked st1 = invoked st @ [key]" "awaiting st1 = awaiting st @ [(c, key)]"
    "t_cache st1 = t_cache st" "returned st1 = returned st"
    using Cons.prems by (simp_all add: st1_def)
  have r: "run_events st (map (\<lambda>c. Call c key) (c # cs)) = run_events st1 (map (\<lambda>c. Call c key) cs)"
    by (simp add: run_events_def st1_def del: step.simps)
  have "t_cache st1 key = None" using Cons.prems s by simp
  from Cons.IH [OF this] show ?case
    unfolding r s by (simp add: replicate_app_Cons_same)
qed

lemma localCache_as_events:
  assumes "map_of (awaiting st) c = None"
  shows "t_cache (run_events st [Call c key, Settle c out])
           = fst (snd (localCache key (Pair out) (t_cache st, ())))
       \<and> returned (run_events st [Call c key, Settle c out])
           = returned st @ [(c, fst (localCache key (Pair out) (t_cache st, ())))]"
  using assms
  by (cases out) (auto simp: run_events_def localCache_def split: option.splits)

lemma step_settled_key:
  assumes "t_cache st key = Some r" "key \<notin> snd ` set (awaiting st)"
  shows "t_cache (step st ev) key = Some r"
    and "key \<notin> snd ` set (awaiting (step st ev))"
    and "filter (\<lambda>k. k = key) (invoked (step st ev)) = filter (\<lambda>k. k = key) (invoked st)"
proof -
  have "t_cache (step st ev) key = Some r
      \<and> key \<notin> snd ` set (awaiting (step st ev))
      \<and> filter (\<lambda>k. k = key) (invoked (step st ev)) = filter (\<lambda>k. k = key) (invoked st)"
  proof (cases ev)
    case (Call c k)
    then show ?thesis using assms by (cases "k = key") (auto split: option.splits)
  next
    case (Settle c out)
    show ?thesis
    proof (cases "map_of (awaiting st) c")
      case None
      then show ?thesis using assms Settle by simp
    next
      case (Some k)
      then have "(c, k) \<in> set (awaiting st)" by (rule map_of_SomeD)
      then have "k \<noteq> key" using assms(2) by force
      then show ?thesis using assms Settle Some by (cases out) (auto simp: image_iff)
    qed
  qed
  then show "t_cache (step st ev) key = Some r"
    and "key \<notin> snd ` set (awaiting (step st ev))"
    and "filter (\<lambda>k. k = key) (invoked (step st ev)) = filter (\<lambda>k. k = key) (invoked st)"
    by simp_all
qed

lemma run_events_settled_key:
  assumes "t_cache st key = Some r" "key \<notin> snd ` set (awaiting st)"
  shows "t_cache (run_events st evs) key = Some r
      \<and> key \<notin> snd ` set (awaiting (run_events st evs))
      \<and> filter (\<lambda>k. k = key) (invoked (run_events st evs)) = filter (\<lambda>k. k = key) (invoked st)"
  using assms
proof (induction evs arbitrary: st)
  case Nil
  then show ?case by (simp add: run_events_def)
next
  case (Cons ev evs)
  define st1 where "st1 = step st ev"
  have r: "run_events st (ev # evs) = run_events st1 evs"
    by (simp add: run_events_def st1_def del: step.simps)
  note s = step_settled_key [OF Cons.prems, of ev, folded st1_def]
  from Cons.IH [OF s(1,2)] show ?case unfolding r s(3) .
qed

lemma settle_last_awaiting:
  assumes "map_of (awaiting st) c = Some key"
    and "\<forall>(c1, k1) \<in> set (awaiting st). k1 = key \<longrightarrow> c1 = c"
  shows "t_cache (step st (Settle c (Inr r))) key = Some r"
    and "key \<notin> snd ` set (awaiting (step st (Settle c (Inr r))))"
    and "invoked (step st (Settle c (Inr r))) = invoked st"
  using assms by (auto simp: image_iff)

section \<open>Result formatter: results\<close>

text \<open>
  C7, as the code has it. For every raw cell, \<open>formatData\<close> returns a datum and never
  throws, also when the value is \<^verbatim>\<open>null\<close> or missing. Its \<open>l\<close> is the first link's URL
  if there is one and absent otherwise. Its \<open>v\<close> is the pre-rendered string if that is
  present and not empty, and otherwise (absent or empty) the textual form of the value.
  Its \<open>n\<close> is the raw value exactly when the value is a number, and absent otherwise.
\<close>

theorem C7_formatData:
  "\<exists>r. formatData h (Some d) = Inr r
     \<and> (\<forall>k ks. links d = Some (k # ks) \<longrightarrow> l r = url k)
     \<and> (links d = None \<or> links d = Some [] \<longrightarrow> l r = None)
     \<and> (\<forall>s. rendered d = Some s \<and> s \<noteq> [] \<longrightarrow> v r = JStr s)
     \<and> (rendered d = None \<or> rendered d = Some [] \<longrightarrow> v r = JStr (ToString h (value' d)))
     \<and> (\<forall>x. n r = Some x \<longleftrightarrow> value' d = JNum x)
     \<and> (value' d = JNull \<and> rendered d = None \<longrightarrow> v r = JStr ''null'' \<and> n r = None)
     \<and> (value' d = JUndefined \<and> rendered d = None \<longrightarrow> v r = JStr ''undefined'' \<and> n r = None)"
  by (auto simp: formatData_def Let_def split: option.splits list.splits jsval.splits)

theorem C7_formatData_witness:
  "\<exists>r. formatData sample_host (Some \<lparr>value' = JNull, rendered = None,
            links = Some [\<lparr>url = Some ''/explore/1''\<rparr>, \<lparr>url = None\<rparr>]\<rparr>) = Inr r
     \<and> l r = Some ''/explore/1'' \<and> v r = JStr ''null'' \<and> n r = None"
  using C7_formatData [of sample_host "\<lparr>value' = JNull, rendered = None,
            links = Some [\<lparr>url = Some ''/explore/1''\<rparr>, \<lparr>url = None\<rparr>]\<rparr>"]
  by auto

text \<open>
  C7 as stated fails for a pre-rendered string that is present but empty: the cell
  \<^verbatim>\<open>{value: 5, rendered: ""}\<close> is shown as \<^verbatim>\<open>"5"\<close>, not as its pre-rendered string,
  because \<^verbatim>\<open>d.rendered || ...\<close> tests truthiness.
\<close>

theorem C7_formatData_empty_rendered_counterexample:
  "formatData sample_host (Some \<lparr>value' = JNum (Fin 5), rendered = Some '''', links = None\<rparr>)
     = Inr \<lparr>v = JStr ''5'', l = None, n = Some (Fin 5)\<rparr>
   \<and> JStr ''5'' \<noteq> JStr ''''"
  by (simp add: formatData_def sample_host_def signed_def dec.simps)

section \<open>Top-values summarizer: results\<close>

text \<open>
  C2. When the query of a Top-Values request succeeds with at least one row, every row
  having the cell of the field and of the count field, the count of the first row being a
  number \<open>cnt\<close>, and the totals row holding the numeric grand total \<open>tot\<close> of the count
  field, then \<open>getTopValues\<close> issues that one query and returns a result with alignment
  [left, right], one row per returned row made of the formatted field cell and the
  formatted count cell, per-column max [absent, \<open>cnt\<close>], the caption made of the
  locale rendering of \<open>tot\<close> followed by \<^verbatim>\<open>" rows"\<close>, and no histogram.
\<close>

theorem C2_getTopValues:
  assumes cf: "countFieldForField info = Some cf"
    and qr: "sdk (length issued) (topValuesQuery info cf) = Inr qr"
    and rows: "qr_data qr = r0 # rest"
    and cells: "\<forall>r \<in> set (qr_data qr). map_of r (name (field info)) \<noteq> None \<and> map_of r (name cf) \<noteq> None"
    and first: "map_of r0 (name cf) = Some c0" "value' c0 = JNum cnt"
    and totals: "totals_data qr = Some t" "map_of t (name cf) = Some tc" "value' tc = JNum (Fin tot)"
  shows "\<exists>res. getTopValues h sdk info issued = (Inr res, issued @ [topValuesQuery info cf])
     \<and> align res = [AlignLeft, AlignRight]
     \<and> length (data res) = length (qr_data qr)
     \<and> (\<forall>i < length (qr_data qr). \<exists>a b. data res ! i = [a, b]
            \<and> formatData h (map_of (qr_data qr ! i) (name (field info))) = Inr a
            \<and> formatData h (map_of (qr_data qr ! i) (name cf)) = Inr b)
     \<and> max' res = [None, Some cnt]
     \<and> aux res = Some (numToLocaleString h tot @ '' rows'')
     \<and> histogram res = None"
proof -
  let ?f = "formatRow h (name (field info)) (name cf)"
  have each: "\<forall>r \<in> set (qr_data qr). \<exists>y. ?f r = Inr y"
    using cells formatRow_Inr by fastforce
  from collect_map_Inr [OF each]
  obtain ys where ys: "collect (map ?f (qr_data qr)) = Inr ys" "length ys = length (qr_data qr)"
    "\<forall>i < length (qr_data qr). ?f (qr_data qr ! i) = Inr (ys ! i)" by blast
  have shape: "\<forall>i < length (qr_data qr). \<exists>a b. ys ! i = [a, b]
            \<and> formatData h (map_of (qr_data qr ! i) (name (field info))) = Inr a
            \<and> formatData h (map_of (qr_data qr ! i) (name cf)) = Inr b"
  proof (intro allI impI)
    fix i assume i: "i < length (qr_data qr)"
    then have "qr_data qr ! i \<in> set (qr_data qr)" by simp
    with cells obtain a b where "map_of (qr_data qr ! i) (name (field info)) = Some a"
      "map_of (qr_data qr ! i) (name cf) = Some b" by fastforce
    from formatRow_Inr [OF this, of h] ys(3) i
    show "\<exists>a b. ys ! i = [a, b]
            \<and> formatData h (map_of (qr_data qr ! i) (name (field info))) = Inr a
            \<and> formatData h (map_of (qr_data qr ! i) (name cf)) = Inr b" by auto
  qed
  from shape rows obtain a b where ab: "ys ! 0 = [a, b]"
    "formatData h (map_of r0 (name cf)) = Inr b" by fastforce
  from ys(2) rows obtain y0 yr where y0: "ys = y0 # yr" by (cases ys) auto
  with ab have y0ab: "y0 = [a, b]" by simp
  have nb: "n b = Some cnt" using ab(2) first formatData_count by simp
  show ?thesis
    using cf qr ys(1,2) shape y0 y0ab nb totals
    by (simp add: getTopValues_def run_inline_query_def topValuesResult_def)
qed

theorem C2_getTopValues_witness:
  "\<exists>res. getTopValues sample_host (always status_response) (request status_field Values) []
       = (Inr res, [topValuesQuery (request status_field Values) orders_count])
     \<and> align res = [AlignLeft, AlignRight]
     \<and> length (data res) = 2
     \<and> max' res = [None, Some (Fin 120)]
     \<and> aux res = Some ''165 rows''
     \<and> histogram res = None"
proof -
  have 1: "countFieldForField (request status_field Values) = Some orders_count"
    by (simp add: countFieldForField_def sample_defs)
  have 2: "always status_response (length ([]::query list))
             (topValuesQuery (request status_field Values) orders_count) = Inr status_response"
    by (simp add: always_def)
  have 3: "qr_data status_response =
      [(''orders.status'', plain (JStr ''Shipped'')), (''orders.count'', num 120)]
      # [[(''orders.status'', plain (JStr ''Pending'')), (''orders.count'', num 45)]]"
    by (simp add: status_response_def)
  have 4: "\<forall>r \<in> set (qr_data status_response).
      map_of r (name (field (request status_field Values))) \<noteq> None \<and> map_of r (name orders_count) \<noteq> None"
    by (simp add: sample_defs)
  have 5: "map_of [(''orders.status'', plain (JStr ''Shipped'')), (''orders.count'', num 120)]
             (name orders_count) = Some (num 120)"
    by (simp add: sample_defs)
  have 6: "value' (num 120) = JNum (Fin 120)" by (simp add: sample_defs)
  have 7: "totals_data status_response = Some [(''orders.count'', num 165)]"
    by (simp add: status_response_def)
  have 8: "map_of [(''orders.count'', num 165)] (name orders_count) = Some (num 165)"
    by (simp add: sample_defs)
  have 9: "value' (num 165) = JNum (Fin 165)" by (simp add: sample_defs)
  have 10: "numToLocaleString sample_host 165 = ''165''"
    by (simp add: sample_host_def signed_def grouped.simps dec.simps)
  have 11: "length (qr_data status_response) = 2" by (simp add: status_response_def)
  show ?thesis
    using C2_getTopValues [where h = sample_host and sdk = "always status_response"
        and info = "request status_field Values" and issued = "[]" and cf = orders_count
        and qr = status_response, OF 1 2 3 4 5 6 7 8 9]
    unfolding 10 11 by auto
qed

text \<open>
  C8 fails on the code. With no row returned, \<^verbatim>\<open>data[0]\<close> is \<^verbatim>\<open>undefined\<close> and the
  unguarded \<^verbatim>\<open>data[0][1].n\<close> of line 140 throws a \<^verbatim>\<open>TypeError\<close>, after the query was
  issued: no result is built from an empty row sequence.
\<close>

theorem C8_getTopValues_no_rows:
  "getTopValues sample_host
     (always \<lparr>qr_data = [], totals_data = Some [(''orders.count'', num 0)]\<rparr>)
     (request status_field Values) []
   = (Inl TypeError, [topValuesQuery (request status_field Values) orders_count])"
  by (simp add: getTopValues_def countFieldForField_def run_inline_query_def topValuesResult_def
      sample_defs)

section \<open>Memoization cache: results\<close>

text \<open>
  C3, as the code has it, on the two uninterrupted parts of a call. A call for a key
  that has no entry calls the getter and waits; a call for a key that has an entry
  returns that entry and calls no getter. When the getter of a waiting call resolves,
  the call stores its result under the key, whatever the key holds by then, and returns
  it; no getter is called then. When that call was the only one waiting for the key,
  then after any further events the key still holds that result, no getter has been
  called for the key since, and a call for the key returns that same result.
\<close>

theorem C3_localCache_settled:
  "(t_cache st key = None \<longrightarrow>
      step st (Call c key) = st\<lparr>invoked := invoked st @ [key], awaiting := awaiting st @ [(c, key)]\<rparr>)
   \<and> (\<forall>r. t_cache st key = Some r \<longrightarrow>
         step st (Call c key) = st\<lparr>returned := returned st @ [(c, Inr r)]\<rparr>)
   \<and> (\<forall>r. map_of (awaiting st) c = Some key \<longrightarrow>
         t_cache (step st (Settle c (Inr r))) = (t_cache st)(key \<mapsto> r)
       \<and> returned (step st (Settle c (Inr r))) = returned st @ [(c, Inr r)])
   \<and> invoked (step st (Settle c out)) = invoked st
   \<and> (\<forall>r. map_of (awaiting st) c = Some key
          \<and> (\<forall>(c1, k1) \<in> set (awaiting st). k1 = key \<longrightarrow> c1 = c) \<longrightarrow>
         t_cache (run_events (step st (Settle c (Inr r))) evs) key = Some r
       \<and> filter (\<lambda>k. k = key) (invoked (run_events (step st (Settle c (Inr r))) evs))
           = filter (\<lambda>k. k = key) (invoked st)
       \<and> step (run_events (step st (Settle c (Inr r))) evs) (Call c2 key)
           = (run_events (step st (Settle c (Inr r))) evs)
               \<lparr>returned := returned (run_events (step st (Settle c (Inr r))) evs) @ [(c2, Inr r)]\<rparr>)"
proof -
  have "t_cache (run_events (step st (Settle c (Inr r))) evs) key = Some r
       \<and> filter (\<lambda>k. k = key) (invoked (run_events (step st (Settle c (Inr r))) evs))
           = filter (\<lambda>k. k = key) (invoked st)
       \<and> step (run_events (step st (Settle c (Inr r))) evs) (Call c2 key)
           = (run_events (step st (Settle c (Inr r))) evs)
               \<lparr>returned := returned (run_events (step st (Settle c (Inr r))) evs) @ [(c2, Inr r)]\<rparr>"
    if a: "map_of (awaiting st) c = Some key"
      and b: "\<forall>(c1, k1) \<in> set (awaiting st). k1 = key \<longrightarrow> c1 = c" for r
  proof -
    note s = settle_last_awaiting [OF a b, of r]
    from run_events_settled_key [OF s(1,2), of evs] show ?thesis
      unfolding s(3) by simp
  qed
  moreover have "invoked (step st (Settle c out)) = invoked st"
    by (cases out) (simp_all split: option.splits)
  ultimately show ?thesis by (auto split: option.splits)
qed

theorem C3_localCache_settled_witness:
  "returned (run_events (idle no_entries)
      [Call 1 ''k'', Call 2 ''j'', Settle 1 (Inr (sample_result ''a'')), Call 3 ''k'',
       Settle 2 (Inr (sample_result ''b'')), Call 4 ''k''])
     = [(1, Inr (sample_result ''a'')), (3, Inr (sample_result ''a'')),
        (2, Inr (sample_result ''b'')), (4, Inr (sample_result ''a''))]
   \<and> invoked (run_events (idle no_entries)
      [Call 1 ''k'', Call 2 ''j'', Settle 1 (Inr (sample_result ''a'')), Call 3 ''k'',
       Settle 2 (Inr (sample_result ''b'')), Call 4 ''k'']) = [''k'', ''j'']"
  using C3_localCache_settled [where st = "run_events (idle no_entries) [Call 1 ''k'', Call 2 ''j'']"
      and key = "''k''" and c = 1 and evs = "[Call 3 ''k'', Settle 2 (Inr (sample_result ''b''))]"
      and ?c2.0 = 4]
  by (simp add: run_events_def idle_def no_entries_def)

text \<open>
  C3 as stated fails when two calls for a key overlap: both find no entry and call the
  getter. After the first has resolved with a result, a third call returns that
  result; then the second resolves and stores its own result over the entry, and a
  fourth call returns the second result, not the first.
\<close>

theorem C3_overlapping_store_counterexample:
  "returned (run_events (idle no_entries)
      [Call 1 ''k'', Call 2 ''k'', Settle 1 (Inr (sample_result ''a'')), Call 3 ''k'',
       Settle 2 (Inr (sample_result ''b'')), Call 4 ''k''])
     = [(1, Inr (sample_result ''a'')), (3, Inr (sample_result ''a'')),
        (2, Inr (sample_result ''b'')), (4, Inr (sample_result ''b''))]
   \<and> t_cache (run_events (idle no_entries)
      [Call 1 ''k'', Call 2 ''k'', Settle 1 (Inr (sample_result ''a''))]) ''k''
     = Some (sample_result ''a'')
   \<and> t_cache (run_events (idle no_entries)
      [Call 1 ''k'', Call 2 ''k'', Settle 1 (Inr (sample_result ''a'')), Call 3 ''k'',
       Settle 2 (Inr (sample_result ''b''))]) ''k''
     = Some (sample_result ''b'')
   \<and> sample_result ''a'' \<noteq> sample_result ''b''"
  by (simp add: run_events_def idle_def no_entries_def sample_result_def)



section \<open>Distribution summarizer: results\<close>

text \<open>
  C4. When the statistics query succeeds with a row that has the three cells and
  \<^verbatim>\<open>min.value\<close> is falsy, \<open>getDistribution\<close> issues that one query only and returns the
  grid of the three rows \<^verbatim>\<open>Min\<close>, \<^verbatim>\<open>Max\<close>, \<^verbatim>\<open>Average\<close> (the falsy minimum itself in the
  first row), per-column max [absent, absent] and no histogram.
\<close>

theorem C4_getDistribution_falsy_min:
  assumes qr: "sdk (length issued) (statsQuery info) = Inr qr"
    and rows: "qr_data qr = row0 # rest"
    and cells: "map_of row0 ''min'' = Some mn" "map_of row0 ''max'' = Some mx"
      "map_of row0 ''average'' = Some av"
    and falsy: "\<not> truthy (value' mn)"
  shows "\<exists>b c. getDistribution h sdk info issued =
      (Inr \<lparr>align = [AlignLeft, AlignRight],
            data = [[\<lparr>v = JStr ''Min'', l = None, n = None\<rparr>, \<lparr>v = value' mn, l = None, n = None\<rparr>],
                    [\<lparr>v = JStr ''Max'', l = None, n = None\<rparr>, \<lparr>v = b, l = None, n = None\<rparr>],
                    [\<lparr>v = JStr ''Average'', l = None, n = None\<rparr>, \<lparr>v = c, l = None, n = None\<rparr>]],
            max' = [None, None],
            aux = None,
            histogram = None\<rparr>,
       issued @ [statsQuery info])
     \<and> localized h (value' mx) = Inr b \<and> localized h (value' av) = Inr c"
proof -
  obtain a where a: "localized h (value' mn) = Inr a" "a = value' mn"
    using localized_Inr [of h "value' mn"] falsy by auto
  obtain b where b: "localized h (value' mx) = Inr b" using localized_Inr by blast
  obtain c where c: "localized h (value' av) = Inr c" using localized_Inr by blast
  show ?thesis
    using assms a b c
    by (simp add: getDistribution_def run_inline_query_def distributionResult_def Let_def datum_def)
qed

theorem C4_getDistribution_falsy_min_witness:
  "getDistribution sample_host zero_service (request price_field Distribution) [] =
      (Inr \<lparr>align = [AlignLeft, AlignRight],
            data = [[\<lparr>v = JStr ''Min'', l = None, n = None\<rparr>, \<lparr>v = JNum (Fin 0), l = None, n = None\<rparr>],
                    [\<lparr>v = JStr ''Max'', l = None, n = None\<rparr>, \<lparr>v = JStr ''30'', l = None, n = None\<rparr>],
                    [\<lparr>v = JStr ''Average'', l = None, n = None\<rparr>, \<lparr>v = JStr ''20'', l = None, n = None\<rparr>]],
            max' = [None, None],
            aux = None,
            histogram = None\<rparr>,
       [statsQuery (request price_field Distribution)])"
proof -
  have q: "zero_service (length ([]::query list)) (statsQuery (request price_field Distribution))
    = Inr \<lparr>qr_data = [[(''min'', plain (JNum (Fin 0))), (''max'', plain (JNum (Fin 30))),
         (''average'', plain (JNum (Fin 20)))]], totals_data = None\<rparr>"
    unfolding zero_service_def by (rule stats_service_stats)
  have f: "\<not> truthy (value' (plain (JNum (Fin 0))))" by (simp add: plain_def)
  have l30: "localized sample_host (value' (plain (JNum (Fin 30)))) = Inr (JStr ''30'')"
    by (simp add: localized_def plain_def sample_host_def signed_def grouped.simps dec.simps)
  have l20: "localized sample_host (value' (plain (JNum (Fin 20)))) = Inr (JStr ''20'')"
    by (simp add: localized_def plain_def sample_host_def signed_def grouped.simps dec.simps)
  from C4_getDistribution_falsy_min [where h = sample_host and sdk = zero_service
      and issued = "[]" and info = "request price_field Distribution",
      OF q stats_row(1,2,3,4) f] l30 l20
  show ?thesis by (auto simp: plain_def)
qed

text \<open>
  C10. Every query that \<open>getDistribution\<close> issues has the row limit 10. When a histogram
  is produced, the statistics query and the per-bin count query were issued, both with
  limit 10, the histogram has 20 bins, and every bin index that no row of the count
  response carries has the count 0.
\<close>

theorem C10_getDistribution_limit:
  "(\<forall>q \<in> set (snd (getDistribution h sdk info issued)). q \<in> set issued \<or> limit q = 10)
   \<and> (\<forall>res hg issued2.
         getDistribution h sdk info issued = (Inr res, issued2) \<and> histogram res = Some hg \<longrightarrow>
         (\<exists>cf e hqr.
              issued2 = issued @ [statsQuery info, histogramQuery info cf e]
            \<and> limit (histogramQuery info cf e) = 10
            \<and> sdk (Suc (length issued)) (histogramQuery info cf e) = Inr hqr
            \<and> length (hist_data hg) = 20
            \<and> (\<forall>i<20. (\<forall>r \<in> set (qr_data hqr). \<forall>c. map_of r ''bin'' = Some c
                            \<longrightarrow> \<not> loose_eq_index h (value' c) i)
                  \<longrightarrow> bin_value (hist_data hg ! i) = JNum (Fin 0))))"
proof (intro conjI allI impI ballI)
  fix q assume "q \<in> set (snd (getDistribution h sdk info issued))"
  then show "q \<in> set issued \<or> limit q = 10"
    using getDistribution_issued [of h sdk info issued] by (auto simp: limit_queries)
next
  fix res hg issued2
  assume a: "getDistribution h sdk info issued = (Inr res, issued2) \<and> histogram res = Some hg"
  from getDistribution_histogram [of h sdk info issued res issued2 hg] a
  obtain mn :: cell and mx :: cell where
    "histogramStep h sdk info (countFieldForField info)
       (distributionBins h (value' mn) (value' mx)) (issued @ [statsQuery info])
     = (Inr (Some hg), issued2)" by blast
  from histogramStep_Some [OF this]
  obtain cf :: ILookmlModelExploreField and hqr :: response where
    q: "sdk (length (issued @ [statsQuery info])) (histogramQuery info cf
          (binExpression h (name (field info)) (distributionBins h (value' mn) (value' mx)))) = Inr hqr"
    and i2: "issued2 = (issued @ [statsQuery info]) @ [histogramQuery info cf
          (binExpression h (name (field info)) (distributionBins h (value' mn) (value' mx)))]"
    and len: "length (hist_data hg) = length (distributionBins h (value' mn) (value' mx))"
    and ent: "\<forall>i < length (distributionBins h (value' mn) (value' mx)).
       histogramEntry h (name cf) (qr_data hqr) (i, distributionBins h (value' mn) (value' mx) ! i)
         = Inr (hist_data hg ! i)"
    by blast
  have zero: "bin_value (hist_data hg ! i) = JNum (Fin 0)"
    if "i < 20" and "\<forall>r \<in> set (qr_data hqr). \<forall>c. map_of r ''bin'' = Some c
                            \<longrightarrow> \<not> loose_eq_index h (value' c) i" for i
  proof -
    obtain lo hi where p: "distributionBins h (value' mn) (value' mx) ! i = (lo, hi)"
      by (cases "distributionBins h (value' mn) (value' mx) ! i") auto
    from ent that(1) have "histogramEntry h (name cf) (qr_data hqr)
        (i, distributionBins h (value' mn) (value' mx) ! i) = Inr (hist_data hg ! i)"
      by (simp add: length_distributionBins)
    then have "histogramEntry h (name cf) (qr_data hqr) (i, lo, hi) = Inr (hist_data hg ! i)"
      by (simp add: p)
    from histogramEntry_no_row [OF this that(2)] show ?thesis .
  qed
  show "\<exists>cf e hqr.
              issued2 = issued @ [statsQuery info, histogramQuery info cf e]
            \<and> limit (histogramQuery info cf e) = 10
            \<and> sdk (Suc (length issued)) (histogramQuery info cf e) = Inr hqr
            \<and> length (hist_data hg) = 20
            \<and> (\<forall>i<20. (\<forall>r \<in> set (qr_data hqr). \<forall>c. map_of r ''bin'' = Some c
                            \<longrightarrow> \<not> loose_eq_index h (value' c) i)
                  \<longrightarrow> bin_value (hist_data hg ! i) = JNum (Fin 0))"
    using q i2 len zero by (auto simp: length_distributionBins limit_queries)
qed

theorem C10_getDistribution_limit_witness:
  "\<exists>res hg cf e. getDistribution sample_host price_service (request price_field Distribution) []
        = (Inr res, [statsQuery (request price_field Distribution),
                     histogramQuery (request price_field Distribution) cf e])
     \<and> limit (statsQuery (request price_field Distribution)) = 10
     \<and> limit (histogramQuery (request price_field Distribution) cf e) = 10
     \<and> histogram res = Some hg
     \<and> length (hist_data hg) = 20
     \<and> bin_value (hist_data hg ! 1) = JNum (Fin 0)
     \<and> bin_value (hist_data hg ! 19) = JNum (Fin 0)"
proof -
  have t: "truthy (JNum (Fin 10))" by simp
  have w: "\<forall>r \<in> set [bin_row 0 3, bin_row 5 7]. map_of r ''bin'' \<noteq> None \<and> map_of r (name orders_count) \<noteq> None"
    by (simp add: bin_row_def orders_count_def)
  from stats_service_produces [OF t price_count w, of sample_host "JNum (Fin 30)" "JNum (Fin 20)"]
  obtain res hg issued2 where
    run: "getDistribution sample_host price_service (request price_field Distribution) []
      = (Inr res, issued2)" and hist: "histogram res = Some hg"
    unfolding price_service_def by auto
  from C10_getDistribution_limit [of sample_host price_service "request price_field Distribution" "[]"]
    run hist
  obtain cf e hqr where
    i2: "issued2 = [statsQuery (request price_field Distribution),
                     histogramQuery (request price_field Distribution) cf e]"
    and lim: "limit (histogramQuery (request price_field Distribution) cf e) = 10"
    and q: "price_service (Suc (length ([]::query list)))
              (histogramQuery (request price_field Distribution) cf e) = Inr hqr"
    and len: "length (hist_data hg) = 20"
    and zero: "\<forall>i<20. (\<forall>r \<in> set (qr_data hqr). \<forall>c. map_of r ''bin'' = Some c
                            \<longrightarrow> \<not> loose_eq_index sample_host (value' c) i)
                  \<longrightarrow> bin_value (hist_data hg ! i) = JNum (Fin 0)"
    by auto
  have rows: "qr_data hqr = [bin_row 0 3, bin_row 5 7]"
    using q by (auto simp: price_service_def stats_service_histogram)
  have z1: "bin_value (hist_data hg ! 1) = JNum (Fin 0)"
    using zero rows by (simp add: bin_row_def num_def plain_def)
  have z19: "bin_value (hist_data hg ! 19) = JNum (Fin 0)"
    using zero rows by (simp add: bin_row_def num_def plain_def)
  show ?thesis using run hist i2 lim len z1 z19 by (auto simp: limit_queries)
qed

text \<open>
  C1, as the code has it. Whenever a histogram is produced from a numeric minimum \<open>a\<close>
  (a binary64 number) and a numeric maximum \<open>b\<close>, and the last bin's max is a finite
  number (no operation on the bounds has overflowed), the histogram has exactly 20
  bins; bin \<open>i\<close> spans from its min \<open>a + i * binSize\<close> to its max
  \<open>a + (i + 1) * binSize\<close> with \<open>binSize = |b - a| / 20\<close>, in binary64 arithmetic; the
  bins are ascending and contiguous; the first bin starts at \<open>a\<close>; every number from
  \<open>a\<close> up to the last bin's max, that max excluded, lies in exactly one of the
  half-open spans from a bin's min to its max. The last bin ends at
  \<open>a + 20 * binSize\<close>, which is \<open>b\<close> when \<open>a \<le> b\<close> and neither the subtraction nor the
  division rounds.
\<close>

theorem C1_histogram_bins:
  assumes run: "getDistribution h sdk info issued = (Inr res, issued2)"
    and hist: "histogram res = Some hg"
    and stats: "sdk (length issued) (statsQuery info) = Inr qr" "qr_data qr = row0 # rest"
      "map_of row0 ''min'' = Some mn" "map_of row0 ''max'' = Some mx"
    and nums: "value' mn = JNum (Fin a)" "value' mx = JNum (Fin b)" "to_binary64 a = Fin a"
    and finite: "bin_max (hist_data hg ! 19) = JNum (Fin z)"
  shows "length (hist_data hg) = 20
     \<and> (\<forall>i<20. bin_min (hist_data hg ! i) = JNum (Fin (bin_bound a b i))
             \<and> bin_max (hist_data hg ! i) = JNum (Fin (bin_bound a b (i + 1)))
             \<and> bin_bound a b i \<le> bin_bound a b (i + 1))
     \<and> (\<forall>i<19. bin_max (hist_data hg ! i) = bin_min (hist_data hg ! (i + 1)))
     \<and> bin_min (hist_data hg ! 0) = JNum (Fin a)
     \<and> (\<forall>x. a \<le> x \<and> x < bin_bound a b 20 \<longrightarrow>
           (\<exists>!i. i < 20 \<and> bin_bound a b i \<le> x \<and> x < bin_bound a b (i + 1)))
     \<and> bin_max (hist_data hg ! 19) = JNum (Fin (bin_bound a b 20))
     \<and> (a \<le> b \<and> round64 b = b \<and> round64 (b - a) = b - a
          \<and> round64 ((b - a) / 20) = (b - a) / 20
         \<longrightarrow> bin_max (hist_data hg ! 19) = JNum (Fin b))"
proof -
  note g = getDistribution_bounds [OF run hist stats nums(1,2)]
  have "bin_max (hist_data hg ! 19) = JNum (bound_of a b (19 + 1))" by (rule g(3)) simp
  with finite have L: "bound_of a b 20 = Fin z" by simp
  have r: "round64 a = a" using nums(3) by (simp add: to_binary64_Fin_iff)
  have b: "bin_min (hist_data hg ! i) = JNum (Fin (bin_bound a b i))"
    "bin_max (hist_data hg ! i) = JNum (Fin (bin_bound a b (i + 1)))" if "i < 20" for i
    using that g(2,3) [of i] bound_of_finite [OF nums(3) L, of i]
      bound_of_finite [OF nums(3) L, of "i + 1"] by simp_all
  have len: "length (hist_data hg) = 20" by (rule g(1))
  have bins: "\<forall>i<20. bin_min (hist_data hg ! i) = JNum (Fin (bin_bound a b i))
             \<and> bin_max (hist_data hg ! i) = JNum (Fin (bin_bound a b (i + 1)))
             \<and> bin_bound a b i \<le> bin_bound a b (i + 1)"
    using b bin_bound_mono by simp
  have contiguous: "\<forall>i<19. bin_max (hist_data hg ! i) = bin_min (hist_data hg ! (i + 1))"
    using b by simp
  have first: "bin_min (hist_data hg ! 0) = JNum (Fin a)"
    using b(1) [of 0] r by (simp add: bin_bound_0)
  have cover: "\<forall>x. a \<le> x \<and> x < bin_bound a b 20 \<longrightarrow>
           (\<exists>!i. i < 20 \<and> bin_bound a b i \<le> x \<and> x < bin_bound a b (i + 1))"
  proof (intro allI impI)
    fix x assume "a \<le> x \<and> x < bin_bound a b 20"
    then have "bin_bound a b 0 \<le> x" "x < bin_bound a b 20" using r by (simp_all add: bin_bound_0)
    then show "\<exists>!i. i < 20 \<and> bin_bound a b i \<le> x \<and> x < bin_bound a b (i + 1)"
      by (rule bin_bound_cover)
  qed
  have last: "bin_max (hist_data hg ! 19) = JNum (Fin (bin_bound a b 20))"
    using b(2) [of 19] by simp
  have exact: "a \<le> b \<and> round64 b = b \<and> round64 (b - a) = b - a
          \<and> round64 ((b - a) / 20) = (b - a) / 20
         \<longrightarrow> bin_max (hist_data hg ! 19) = JNum (Fin b)"
    using last bin_bound_exact [of a b] by simp
  show ?thesis by (intro conjI; fact)
qed

theorem C1_histogram_bins_witness:
  "\<exists>res hg issued2. getDistribution sample_host price_service (request price_field Distribution) []
        = (Inr res, issued2)
     \<and> histogram res = Some hg
     \<and> length (hist_data hg) = 20
     \<and> bin_min (hist_data hg ! 0) = JNum (Fin 10)
     \<and> bin_max (hist_data hg ! 0) = bin_min (hist_data hg ! 1)
     \<and> bin_max (hist_data hg ! 19) = JNum (Fin 30)"
proof -
  have t: "truthy (JNum (Fin 10))" by simp
  have w: "\<forall>r \<in> set [bin_row 0 3, bin_row 5 7]. map_of r ''bin'' \<noteq> None \<and> map_of r (name orders_count) \<noteq> None"
    by (simp add: bin_row_def orders_count_def)
  from stats_service_produces [OF t price_count w, of sample_host "JNum (Fin 30)" "JNum (Fin 20)"]
  obtain res hg issued2 where
    run: "getDistribution sample_host price_service (request price_field Distribution) []
      = (Inr res, issued2)" and hist: "histogram res = Some hg"
    unfolding price_service_def by auto
  have q: "price_service (length ([]::query list)) (statsQuery (request price_field Distribution))
    = Inr \<lparr>qr_data = [[(''min'', plain (JNum (Fin 10))), (''max'', plain (JNum (Fin 30))),
         (''average'', plain (JNum (Fin 20)))]], totals_data = None\<rparr>"
    unfolding price_service_def by (rule stats_service_stats)
  have v: "bin_bound 10 30 20 = 30" "round64 10 = 10"
    by code_simp+
  have "bound_of 10 30 20 = Fin (bin_bound 10 30 20)"
    by (rule bound_of_forward [where m = 31]) (code_simp, code_simp, code_simp, code_simp, simp)
  then have f: "bin_max (hist_data hg ! 19) = JNum (Fin 30)"
    using getDistribution_bounds(3) [OF run hist q stats_row(1,2,3) stats_row(5) stats_row(5), of 19]
    by (simp add: v)
  have d: "to_binary64 10 = Fin 10" unfolding to_binary64_Fin_iff v by simp
  have ex: "(10::rat) \<le> 30 \<and> round64 30 = 30 \<and> round64 (30 - 10) = 30 - 10
      \<and> round64 ((30 - 10) / 20) = (30 - 10) / 20" by code_simp
  from C1_histogram_bins [OF run hist q stats_row(1,2,3) stats_row(5) stats_row(5) d f] ex
  have "length (hist_data hg) = 20 \<and> bin_min (hist_data hg ! 0) = JNum (Fin 10)
     \<and> bin_max (hist_data hg ! 0) = bin_min (hist_data hg ! 1)
     \<and> bin_max (hist_data hg ! 19) = JNum (Fin 30)"
    by auto
  with run hist show ?thesis by blast
qed

text \<open>
  C1 as stated fails twice. For the minimum 0.1 and the maximum 0.3 the last bin ends
  at 0.29999999999999993, below the maximum, through the rounding of \<open>0.3 - 0.1\<close> and of
  the division by 20. For the minimum \<open>- 2 ^ 1023\<close> and the maximum \<open>2 ^ 1023\<close> the
  difference overflows to \<^verbatim>\<open>Infinity\<close>, so the first bin starts at \<^verbatim>\<open>NaN\<close>, not at the
  minimum, and ends at \<^verbatim>\<open>Infinity\<close>.
\<close>

theorem C1_last_bin_counterexample:
  "snd (last (histogram_bounds (fst (getDistribution sample_host tenths_service
       (request price_field Distribution) []))))
     = JNum (Fin (5404319552844594 / 18014398509481984))
   \<and> JNum (Fin (round64 (3 / 10))) = JNum (Fin (5404319552844595 / 18014398509481984))
   \<and> snd (last (histogram_bounds (fst (getDistribution sample_host tenths_service
       (request price_field Distribution) []))))
     \<noteq> JNum (Fin (round64 (3 / 10)))
   \<and> round64 (1 / 10) < round64 (3 / 10)
   \<and> to_binary64 (- (2 ^ 1023)) = Fin (- (2 ^ 1023))
   \<and> fst (hd (histogram_bounds (fst (getDistribution sample_host huge_service
       (request price_field Distribution) [])))) = JNum NaN
   \<and> snd (hd (histogram_bounds (fst (getDistribution sample_host huge_service
       (request price_field Distribution) [])))) = JNum PosInfinity"
proof -
  let ?a = "round64 (1 / 10)" and ?b = "round64 (3 / 10)" and ?c = "round64 (1 / 5)"
  have t: "truthy (JNum (Fin ?a))" by code_simp
  from stats_service_produces [OF t price_count, of "[]" sample_host "JNum (Fin ?b)" "JNum (Fin ?c)"]
  obtain res hg issued2 where
    run: "getDistribution sample_host tenths_service (request price_field Distribution) []
      = (Inr res, issued2)" and hist: "histogram res = Some hg"
    unfolding tenths_service_def by auto
  have q: "tenths_service (length ([]::query list)) (statsQuery (request price_field Distribution))
    = Inr \<lparr>qr_data = [[(''min'', plain (JNum (Fin ?a))), (''max'', plain (JNum (Fin ?b))),
         (''average'', plain (JNum (Fin ?c)))]], totals_data = None\<rparr>"
    unfolding tenths_service_def by (rule stats_service_stats)
  note g = getDistribution_bounds [OF run hist q stats_row(1,2,3) stats_row(5) stats_row(5)]
  have v: "bin_bound ?a ?b 20 = 5404319552844594 / 18014398509481984"
    by code_simp
  have "bound_of ?a ?b 20 = Fin (bin_bound ?a ?b 20)"
    by (rule bound_of_forward [where m = 1]) (code_simp, code_simp, code_simp, code_simp, simp)
  then have m: "bin_max (hist_data hg ! 19) = JNum (Fin (5404319552844594 / 18014398509481984))"
    using g(3) [of 19] by (simp add: v)
  have len: "length (hist_data hg) = 20" by (rule g(1))
  have ne: "hist_data hg \<noteq> []" using len by auto
  have "last (hist_data hg) = hist_data hg ! 19" using len ne by (simp add: last_conv_nth)
  then have 1: "snd (last (histogram_bounds (fst (getDistribution sample_host tenths_service
       (request price_field Distribution) [])))) = bin_max (hist_data hg ! 19)"
    using run hist ne by (simp add: histogram_bounds_def last_map)
  have 2: "round64 (3 / 10) = 5404319552844595 / 18014398509481984" by code_simp
  have 3: "round64 (1 / 10) < round64 (3 / 10)" by code_simp
  have th: "truthy (JNum (Fin (- (2 ^ 1023))))" by simp
  from stats_service_produces [OF th price_count, of "[]" sample_host "JNum (Fin (2 ^ 1023))" "JNum (Fin 0)"]
  obtain res2 hg2 issued3 where
    run2: "getDistribution sample_host huge_service (request price_field Distribution) []
      = (Inr res2, issued3)" and hist2: "histogram res2 = Some hg2"
    unfolding huge_service_def by auto
  have q2: "huge_service (length ([]::query list)) (statsQuery (request price_field Distribution))
    = Inr \<lparr>qr_data = [[(''min'', plain (JNum (Fin (- (2 ^ 1023))))), (''max'', plain (JNum (Fin (2 ^ 1023)))),
         (''average'', plain (JNum (Fin 0)))]], totals_data = None\<rparr>"
    unfolding huge_service_def by (rule stats_service_stats)
  note g2 = getDistribution_bounds [OF run2 hist2 q2 stats_row(1,2,3) stats_row(5) stats_row(5)]
  have o: "bound_of (- (2 ^ 1023)) (2 ^ 1023) 0 = NaN"
    "bound_of (- (2 ^ 1023)) (2 ^ 1023) (0 + 1) = PosInfinity"
    using bound_of_overflow [of "2 ^ 1023" "- (2 ^ 1023)"] huge_range by simp_all
  have ne2: "hist_data hg2 \<noteq> []" using g2(1) by auto
  have "hd (hist_data hg2) = hist_data hg2 ! 0" using ne2 by (simp add: hd_conv_nth)
  then have 4: "hd (histogram_bounds (fst (getDistribution sample_host huge_service
       (request price_field Distribution) []))) = (JNum NaN, JNum PosInfinity)"
    using run2 hist2 ne2 g2(2) [of 0] g2(3) [of 0] o by (simp add: histogram_bounds_def hd_map)
  show ?thesis using 1 m 2 3 4 huge_min by simp
qed

section \<open>Dispatch: results\<close>

text \<open>
  C6, as the code has it. \<open>runChartQuery\<close> makes no capability check. For a request
  that is not cached: a Values request whose field has no companion count field fails
  with a \<^verbatim>\<open>TypeError\<close> before any query is issued and leaves the cache as it was; a
  Values request with a companion count field issues the top-values query; a
  Distribution request issues the statistics query; neither looks at the field's type
  or category. The outcome is always that of the summarizer of the requested kind.
\<close>

theorem C6_runChartQuery_unchecked:
  "(type' ty = Values \<and> c (stringify h ty) = None \<and> countFieldForField ty = None \<longrightarrow>
      runChartQuery h sdk ty (c, issued) = (Inl TypeError, (c, issued)))
   \<and> (\<forall>cf. type' ty = Values \<and> c (stringify h ty) = None \<and> countFieldForField ty = Some cf \<longrightarrow>
         snd (snd (runChartQuery h sdk ty (c, issued))) = issued @ [topValuesQuery ty cf])
   \<and> (type' ty = Distribution \<and> c (stringify h ty) = None \<longrightarrow>
         (\<exists>more. snd (snd (runChartQuery h sdk ty (c, issued))) = issued @ statsQuery ty # more))
   \<and> (type' ty = Values \<and> c (stringify h ty) = None \<longrightarrow>
         fst (runChartQuery h sdk ty (c, issued)) = fst (getTopValues h sdk ty issued))
   \<and> (type' ty = Distribution \<and> c (stringify h ty) = None \<longrightarrow>
         fst (runChartQuery h sdk ty (c, issued)) = fst (getDistribution h sdk ty issued))"
proof (intro conjI allI impI)
  assume "type' ty = Values \<and> c (stringify h ty) = None \<and> countFieldForField ty = None"
  then show "runChartQuery h sdk ty (c, issued) = (Inl TypeError, (c, issued))"
    by (simp add: runChartQuery_def localCache_def getTopValues_no_count)
next
  fix cf
  assume "type' ty = Values \<and> c (stringify h ty) = None \<and> countFieldForField ty = Some cf"
  then show "snd (snd (runChartQuery h sdk ty (c, issued))) = issued @ [topValuesQuery ty cf]"
    by (simp add: runChartQuery_def localCache_miss_state getTopValues_issued)
next
  assume "type' ty = Distribution \<and> c (stringify h ty) = None"
  then show "\<exists>more. snd (snd (runChartQuery h sdk ty (c, issued))) = issued @ statsQuery ty # more"
    using getDistribution_issues_stats [of h sdk ty issued]
    by (simp add: runChartQuery_def localCache_miss_state)
next
  assume "type' ty = Values \<and> c (stringify h ty) = None"
  then show "fst (runChartQuery h sdk ty (c, issued)) = fst (getTopValues h sdk ty issued)"
    by (simp add: runChartQuery_def localCache_miss_outcome)
next
  assume "type' ty = Distribution \<and> c (stringify h ty) = None"
  then show "fst (runChartQuery h sdk ty (c, issued)) = fst (getDistribution h sdk ty issued)"
    by (simp add: runChartQuery_def localCache_miss_outcome)
qed

theorem C6_runChartQuery_unchecked_witness:
  "\<not> canGetTopValues (request note_field Values)
   \<and> runChartQuery sample_host price_service (request note_field Values) (no_entries, [])
     = (Inl TypeError, (no_entries, []))
   \<and> snd (snd (runChartQuery sample_host (always status_response) (request status_field Values)
        (no_entries, []))) = [topValuesQuery (request status_field Values) orders_count]"
proof -
  have 1: "type' (request note_field Values) = Values
     \<and> no_entries (stringify sample_host (request note_field Values)) = None
     \<and> countFieldForField (request note_field Values) = None"
    by (simp add: note_count) (simp add: request_def no_entries_def)
  have 2: "type' (request status_field Values) = Values
     \<and> no_entries (stringify sample_host (request status_field Values)) = None
     \<and> countFieldForField (request status_field Values) = Some orders_count"
    by (simp add: countFieldForField_def sample_defs no_entries_def)
  show ?thesis
    using C6_runChartQuery_unchecked [of "request note_field Values" no_entries sample_host
        price_service "[]"]
      C6_runChartQuery_unchecked [of "request status_field Values" no_entries sample_host
        "always status_response" "[]"] 1 2
    by (simp add: canGetTopValues_def)
qed

text \<open>
  C6 as stated fails: a Distribution request for a string field with no companion count
  field, for which \<open>canGetDistribution\<close> is false, issues the statistics query and only
  then fails, with a \<^verbatim>\<open>TypeError\<close>.
\<close>

theorem C6_query_issued_counterexample:
  "\<not> canGetDistribution (request note_field Distribution)
   \<and> fst (runChartQuery sample_host price_service (request note_field Distribution) (no_entries, []))
       = Inl TypeError
   \<and> snd (snd (runChartQuery sample_host price_service (request note_field Distribution)
        (no_entries, []))) = [statsQuery (request note_field Distribution)]"
proof -
  have 1: "\<not> canGetDistribution (request note_field Distribution)"
    by (simp add: canGetDistribution_def sample_defs)
  have q: "price_service (length ([]::query list)) (statsQuery (request note_field Distribution))
    = Inr \<lparr>qr_data = [[(''min'', plain (JNum (Fin 10))), (''max'', plain (JNum (Fin 30))),
         (''average'', plain (JNum (Fin 20)))]], totals_data = None\<rparr>"
    unfolding price_service_def by (rule stats_service_stats)
  have 2: "getDistribution sample_host price_service (request note_field Distribution) []
    = (Inl TypeError, [statsQuery (request note_field Distribution)])"
    using q by (simp add: getDistribution_def run_inline_query_def Let_def note_count
        histogramStep_def plain_def)
  have 3: "no_entries (stringify sample_host (request note_field Distribution)) = None"
    by (simp add: no_entries_def)
  have 4: "type' (request note_field Distribution) = Distribution" by (simp add: request_def)
  show ?thesis
    using 1 2 3 4 by (simp add: runChartQuery_def localCache_def)
qed

section \<open>Overlapping calls: results\<close>

text \<open>
  C9, as the code has it. The cache holds resolved results only. A call for a key that
  has an entry returns the entry without calling the getter. A call for a key without
  an entry calls the getter and waits, whatever is in flight; when its getter resolves,
  it stores and returns its own result. So callers that request an uncached key before
  any of them has resolved call the getter once each.
\<close>

theorem C9_overlapping_calls:
  "(t_cache st key = None \<longrightarrow>
      invoked (step st (Call c key)) = invoked st @ [key]
    \<and> awaiting (step st (Call c key)) = awaiting st @ [(c, key)])
   \<and> (\<forall>r. t_cache st key = Some r \<longrightarrow>
         invoked (step st (Call c key)) = invoked st
       \<and> returned (step st (Call c key)) = returned st @ [(c, Inr r)])
   \<and> (\<forall>r. map_of (awaiting st) c = Some key \<longrightarrow>
         t_cache (step st (Settle c (Inr r))) = (t_cache st)(key \<mapsto> r)
       \<and> returned (step st (Settle c (Inr r))) = returned st @ [(c, Inr r)])
   \<and> (c0 key = None \<longrightarrow>
         invoked (run_events (idle c0) (map (\<lambda>c. Call c key) cs)) = replicate (length cs) key)"
  using calls_without_entry [of "idle c0" key cs]
  by (auto simp: idle_def)

theorem C9_overlapping_calls_witness:
  "invoked (run_events (idle no_entries) (map (\<lambda>c. Call c ''k'') [1, 2, 3])) = [''k'', ''k'', ''k'']
   \<and> invoked (step (idle (no_entries(''k'' \<mapsto> sample_result ''a''))) (Call 4 ''k'')) = []
   \<and> returned (step (idle (no_entries(''k'' \<mapsto> sample_result ''a''))) (Call 4 ''k''))
       = [(4, Inr (sample_result ''a''))]"
  using C9_overlapping_calls [of "idle no_entries" "''k''" 1 no_entries "[1, 2, 3]"]
    C9_overlapping_calls [of "idle (no_entries(''k'' \<mapsto> sample_result ''a''))" "''k''" 4]
  by (simp add: no_entries_def idle_def)

text \<open>
  C9 as stated fails: two callers that request the same key before either computation
  has resolved call the getter twice, and each observes the result of its own
  computation.
\<close>

theorem C9_two_callers_counterexample:
  "invoked (run_events (idle no_entries)
      [Call 1 ''k'', Call 2 ''k'', Settle 1 (Inr (sample_result ''a'')),
       Settle 2 (Inr (sample_result ''b''))]) = [''k'', ''k'']
   \<and> returned (run_events (idle no_entries)
      [Call 1 ''k'', Call 2 ''k'', Settle 1 (Inr (sample_result ''a'')),
       Settle 2 (Inr (sample_result ''b''))])
       = [(1, Inr (sample_result ''a'')), (2, Inr (sample_result ''b''))]"
  by (simp add: run_events_def idle_def no_entries_def)

end
